theory Spec2Isabelle
  imports Main
begin

section \<open>Remote mapping files: a model of qiime/remote.py\<close>

text \<open>
  The module loads a mapping file from a Google Spreadsheet and returns it as
  tab-separated text. Python byte strings are \<^typ>\<open>string\<close>; a leading underscore of a
  Python name is dropped (\<open>_get_cleaned_headers\<close> is \<open>get_cleaned_headers\<close>).
\<close>

subsection \<open>Python string operations used by the module\<close>

text \<open>\<open>s.startswith(p)\<close>.\<close>

definition startswith :: "string \<Rightarrow> string \<Rightarrow> bool" where
  "startswith s p = (take (length p) s = p)"

text \<open>\<open>sub in s\<close>: some position of \<open>s\<close> starts with \<open>sub\<close>.\<close>

fun str_contains :: "string \<Rightarrow> string \<Rightarrow> bool" where
  "str_contains sub [] = (sub = [])"
| "str_contains sub (c # cs) = (startswith (c # cs) sub \<or> str_contains sub cs)"

text \<open>
  The first occurrence of a non-empty separator, scanning from the left: the text before
  it and the text after it (\<open>None\<close> when there is no occurrence).
\<close>

fun str_partition :: "string \<Rightarrow> string \<Rightarrow> (string \<times> string) option" where
  "str_partition [] sep = None"
| "str_partition (c # cs) sep =
     (if sep \<noteq> [] \<and> startswith (c # cs) sep
      then Some ([], drop (length sep) (c # cs))
      else (case str_partition cs sep of
              None \<Rightarrow> None
            | Some (before, after) \<Rightarrow> Some (c # before, after)))"

lemma str_partition_Some:
  "str_partition s sep = Some (before, after) \<Longrightarrow> sep \<noteq> [] \<and> s = before @ sep @ after"
proof (induction s arbitrary: before)
  case Nil
  then show ?case by simp
next
  case (Cons c cs)
  show ?case
  proof (cases "sep \<noteq> [] \<and> startswith (c # cs) sep")
    case True
    with Cons.prems have "before = []" "after = drop (length sep) (c # cs)" by simp_all
    moreover from True have "take (length sep) (c # cs) = sep" by (simp add: startswith_def)
    ultimately show ?thesis using True by (metis append_Nil append_take_drop_id)
  next
    case False
    with Cons.prems obtain b where "str_partition cs sep = Some (b, after)" "before = c # b"
      by (auto split: option.splits)
    with Cons.IH show ?thesis by simp
  qed
qed

text \<open>
  \<open>s.split(sep)\<close> for a non-empty \<open>sep\<close>: the pieces between the non-overlapping
  occurrences of \<open>sep\<close>, found from left to right. Python raises \<open>ValueError\<close> for an empty
  separator; every call in the module passes a non-empty literal.
\<close>

function str_split :: "string \<Rightarrow> string \<Rightarrow> string list" where
  "str_split s sep =
     (case str_partition s sep of
        None \<Rightarrow> [s]
      | Some (before, after) \<Rightarrow> before # str_split after sep)"
  by pat_completeness auto
termination
proof (relation "measure (\<lambda>(s, sep). length s)")
  show "wf (measure (\<lambda>(s, sep). length s))" by simp
next
  fix s sep :: string and x2 before after
  assume "str_partition s sep = Some x2" "(before, after) = x2"
  then have "str_partition s sep = Some (before, after)" by simp
  then have "sep \<noteq> []" and "s = before @ sep @ after"
    by (simp_all add: str_partition_Some)
  then have "length s = length before + length sep + length after" and "0 < length sep"
    by simp_all
  then have "length after < length s" by linarith
  then show "((after, sep), (s, sep)) \<in> measure (\<lambda>(s, sep). length s)" by simp
qed

declare str_split.simps [simp del]

text \<open>\<open>s.lower()\<close> on a byte string (C locale): the letters A-Z become a-z.\<close>

definition lower_char :: "char \<Rightarrow> char" where
  "lower_char c =
     (case map_of (zip ''ABCDEFGHIJKLMNOPQRSTUVWXYZ'' ''abcdefghijklmnopqrstuvwxyz'') c of
        None \<Rightarrow> c
      | Some l \<Rightarrow> l)"

definition str_lower :: "string \<Rightarrow> string" where
  "str_lower s = map lower_char s"

text \<open>\<open>s.replace(old, new)\<close> for a one-character \<open>old\<close>.\<close>

definition str_replace :: "string \<Rightarrow> char \<Rightarrow> string \<Rightarrow> string" where
  "str_replace s old new = concat (map (\<lambda>c. if c = old then new else [c]) s)"

text \<open>\<open>s.lstrip()\<close>: leading whitespace (space, \<open>\t \n \v \f \r\<close>) is dropped.\<close>

definition is_space :: "char \<Rightarrow> bool" where
  "is_space c = (c \<in> set [CHR '' '', CHR 0x09, CHR 0x0A, CHR 0x0B, CHR 0x0C, CHR 0x0D])"

definition str_lstrip :: "string \<Rightarrow> string" where
  "str_lstrip s = dropWhile is_space s"

text \<open>\<open>'%d' % i\<close>: the decimal digits of an integer, with a minus sign when negative.\<close>

definition digit_char :: "nat \<Rightarrow> char" where
  "digit_char d = ''0123456789'' ! d"

function str_of_nat :: "nat \<Rightarrow> string" where
  "str_of_nat n =
     (if n < 10 then [digit_char n] else str_of_nat (n div 10) @ [digit_char (n mod 10)])"
  by pat_completeness auto
termination
  by (relation "measure id") auto

declare str_of_nat.simps [simp del]

definition format_d :: "int \<Rightarrow> string" where
  "format_d i = (if i < 0 then ''-'' @ str_of_nat (nat (- i)) else str_of_nat (nat i))"

subsection \<open>Exceptions\<close>

text \<open>
  The two exception classes of the module, the built-in exceptions its code can raise, and
  what the gdata client can raise: \<open>socket.gaierror\<close> (name resolution failed) or
  anything else (\<open>ServiceError\<close>).
\<close>

datatype exn =
    RemoteMappingFileError string
  | RemoteMappingFileConnectionError string
  | Gaierror
  | NameError string
  | AttributeError string
  | ServiceError string

subsection \<open>The spreadsheet key\<close>

definition extract_spreadsheet_key_from_url :: "string \<Rightarrow> string" where
  "extract_spreadsheet_key_from_url url =
     (if str_contains ''key='' url
      then hd (str_split (hd (str_split (last (str_split url ''key='')) ''#'')) ''&'')
      else url)"

subsection \<open>Cleaned headers\<close>

definition sanitize :: "string \<Rightarrow> string" where
  "sanitize header =
     str_replace (str_replace (str_replace (str_replace (str_lower header)
       (CHR ''_'') '''') (CHR '':'') '''') (CHR '' '') '''') (CHR ''#'') ''''"

text \<open>
  The second loop of \<open>_get_cleaned_headers\<close>, over \<open>zip(headers, cleaned_headers)\<close>.
  \<open>header_count\<close> is the \<open>defaultdict(int)\<close>: a key never stored reads as 0.
\<close>

fun dedup_loop ::
  "(string \<times> string) list \<Rightarrow> (string \<Rightarrow> int) \<Rightarrow> string list \<Rightarrow> string list" where
  "dedup_loop [] header_count results = results"
| "dedup_loop ((header, cleaned_header) # rest) header_count results =
     (let new_header =
            (if header_count cleaned_header > 0
             then cleaned_header @ ''_'' @ format_d (header_count cleaned_header)
             else cleaned_header)
      in dedup_loop rest
           (header_count(cleaned_header := header_count cleaned_header + 1))
           (results @ [new_header]))"

definition get_cleaned_headers :: "string list \<Rightarrow> string list" where
  "get_cleaned_headers headers =
     (let cleaned_headers = map sanitize headers
      in dedup_loop (zip headers cleaned_headers) (\<lambda>_. 0) [])"

subsection \<open>The remote service\<close>

text \<open>
  What the gdata client returns, as data. A worksheet entry has a title and an id; a cells
  feed is one page of cell texts with an optional next link; a list feed is one page of
  rows with an optional next link. A row is the dictionary \<open>row.custom\<close>, from cleaned
  header to cell; the text of a cell is \<open>None\<close> when the cell is blank.
  Every call of the client either raises or returns; the cell query of
  \<open>_get_spreadsheet_headers\<close> (row 1 only) is part of \<open>GetCellsFeed\<close>.
\<close>

record worksheet_entry =
  title_text :: string
  id_text :: string

record cells_feed =
  cells_entry :: "string list"
  cells_next_link :: "string option"

type_synonym cell = "string option"

type_synonym row = "string \<rightharpoonup> cell"

record list_feed =
  list_entry :: "row list"
  list_next_link :: "string option"

record client =
  GetWorksheetsFeed :: "string \<Rightarrow> exn + worksheet_entry list"
  GetCellsFeed :: "string \<Rightarrow> string \<Rightarrow> exn + cells_feed"
  GetListFeed :: "string \<Rightarrow> string \<Rightarrow> exn + list_feed"
  Get :: "string \<Rightarrow> exn + cells_feed"

subsection \<open>The header row\<close>

text \<open>
  The \<open>while True\<close> loop of \<open>_get_spreadsheet_headers\<close> follows next links for as long
  as the service returns them; a run that never ends is the value \<open>None\<close>.
\<close>

partial_function (option) get_headers_loop ::
  "client \<Rightarrow> cells_feed \<Rightarrow> string list \<Rightarrow> (exn + string list) option" where
  "get_headers_loop client feed headers =
     (let headers = headers @ cells_entry feed
      in case cells_next_link feed of
           None \<Rightarrow> Some (Inr headers)
         | Some href \<Rightarrow>
             (case Get client href of
                Inl e \<Rightarrow> Some (Inl e)
              | Inr feed \<Rightarrow> get_headers_loop client feed headers))"

declare get_headers_loop.simps [code]

definition get_spreadsheet_headers ::
  "client \<Rightarrow> string \<Rightarrow> string \<Rightarrow> (exn + string list) option" where
  "get_spreadsheet_headers client spreadsheet_key worksheet_id =
     (case GetCellsFeed client spreadsheet_key worksheet_id of
        Inl e \<Rightarrow> Some (Inl e)
      | Inr feed \<Rightarrow> get_headers_loop client feed [])"

subsection \<open>Exporting the rows\<close>

text \<open>\<open>"'%s'" % s\<close>: the string between single quotes.\<close>

definition squote :: "string \<Rightarrow> string" where
  "squote s = [CHR 0x27] @ s @ [CHR 0x27]"

definition header_error :: "string \<Rightarrow> exn" where
  "header_error header =
     RemoteMappingFileError (''Could not map header '' @ squote header @
       '' to Google Spreadsheet's internal representation of the header. We suggest'' @
       '' changing the name of the header in your Google Spreadsheet to be alphanumeric'' @
       '' if possible, as this will likely solve the issue.'')"

text \<open>
  The inner loop of \<open>_export_mapping_file\<close>, over
  \<open>enumerate(zip(headers, cleaned_headers))\<close>, for one row. Its state is the line built so
  far and \<open>found_data\<close>. A missing key raises the module's error; \<open>lstrip\<close> on the text
  of a blank cell raises \<open>AttributeError\<close>; a comment cell ends the loop (\<open>break\<close>).
\<close>

fun export_cells ::
  "nat \<Rightarrow> (string \<times> string) list \<Rightarrow> row \<Rightarrow> bool \<Rightarrow> cell list \<Rightarrow> exn + (cell list \<times> bool)" where
  "export_cells header_idx [] row found_data line = Inr (line, found_data)"
| "export_cells header_idx ((header, cleaned_header) # rest) row found_data line =
     (case row cleaned_header of
        None \<Rightarrow> Inl (header_error header)
      | Some cell_data \<Rightarrow>
          if \<not> found_data \<and> header_idx = 0
          then (case cell_data of
                  None \<Rightarrow> Inl (AttributeError ''lstrip'')
                | Some text \<Rightarrow>
                    if startswith (str_lstrip text) ''#''
                    then Inr (line @ [cell_data], found_data)
                    else export_cells (Suc header_idx) rest row True (line @ [cell_data]))
          else export_cells (Suc header_idx) rest row True (line @ [cell_data]))"

text \<open>
  The loop over the rows of one page. \<open>found_data\<close> is set to False before this loop
  and not inside it, so it is carried from one row to the next.
\<close>

fun export_rows ::
  "(string \<times> string) list \<Rightarrow> row list \<Rightarrow> bool \<Rightarrow> cell list list \<Rightarrow>
     exn + (cell list list \<times> bool)" where
  "export_rows hs [] found_data mapping_lines = Inr (mapping_lines, found_data)"
| "export_rows hs (row # rows) found_data mapping_lines =
     (case export_cells 0 hs row found_data [] of
        Inl e \<Rightarrow> Inl e
      | Inr (line, found_data) \<Rightarrow> export_rows hs rows found_data (mapping_lines @ [line]))"

text \<open>
  The first line is the header list itself. When the page has a next link, the call that
  would fetch the next page names \<open>SpreadsheetsListFeedFromString\<close>, which the module
  does not import: evaluating the argument raises \<open>NameError\<close>.
\<close>

definition export_mapping_file ::
  "client \<Rightarrow> string \<Rightarrow> string \<Rightarrow> string list \<Rightarrow> exn + cell list list" where
  "export_mapping_file client spreadsheet_key worksheet_id headers =
     (let cleaned_headers = get_cleaned_headers headers;
          mapping_lines = [map Some headers]
      in case GetListFeed client spreadsheet_key worksheet_id of
           Inl e \<Rightarrow> Inl e
         | Inr rows_feed \<Rightarrow>
             (case export_rows (zip headers cleaned_headers) (list_entry rows_feed)
                     False mapping_lines of
                Inl e \<Rightarrow> Inl e
              | Inr (mapping_lines, found_data) \<Rightarrow>
                  (case list_next_link rows_feed of
                     None \<Rightarrow> Inr mapping_lines
                   | Some href \<Rightarrow> Inl (NameError ''SpreadsheetsListFeedFromString''))))"

subsection \<open>Writing the lines\<close>

text \<open>
  \<open>csv.writer(out_lines, delimiter='\t', lineterminator='\n')\<close> of the Python 2 standard
  library. The other parameters are those of the default dialect: the quote character is
  the double quote, quoting is \<open>QUOTE_MINIMAL\<close>, a quote character inside a field is
  doubled, and there is no escape character. The writer reads a field up to its first NUL
  byte; \<open>None\<close> is written as the empty string. A field is quoted when it holds the
  delimiter, the quote character or a character of the line terminator, and when it is
  empty and alone in its row.
\<close>

definition csv_delimiter :: char where
  "csv_delimiter = CHR 0x09"

definition csv_lineterminator :: string where
  "csv_lineterminator = [CHR 0x0A]"

definition csv_quotechar :: char where
  "csv_quotechar = CHR 0x22"

definition csv_special :: "char \<Rightarrow> bool" where
  "csv_special c = (c = csv_delimiter \<or> c = csv_quotechar \<or> c \<in> set csv_lineterminator)"

definition csv_field :: "bool \<Rightarrow> cell \<Rightarrow> string" where
  "csv_field quote_empty field =
     (let text = (case field of None \<Rightarrow> [] | Some s \<Rightarrow> takeWhile (\<lambda>c. c \<noteq> CHR 0x00) s);
          quoted = (list_ex csv_special text \<or> (text = [] \<and> quote_empty));
          body = concat (map (\<lambda>c. if c = csv_quotechar then [c, c] else [c]) text)
      in if quoted then [csv_quotechar] @ body @ [csv_quotechar] else body)"

fun join_fields :: "string list \<Rightarrow> string" where
  "join_fields [] = []"
| "join_fields [f] = f"
| "join_fields (f # g # fs) = f @ [csv_delimiter] @ join_fields (g # fs)"

definition writerow :: "cell list \<Rightarrow> string" where
  "writerow row = join_fields (map (csv_field (length row = 1)) row) @ csv_lineterminator"

definition writerows :: "cell list list \<Rightarrow> string" where
  "writerows rows = concat (map writerow rows)"

subsection \<open>Loading a mapping file\<close>

text \<open>The search for the named worksheet: the loop has no \<open>break\<close>.\<close>

fun find_worksheet ::
  "worksheet_entry list \<Rightarrow> string \<Rightarrow> worksheet_entry option \<Rightarrow> worksheet_entry option" where
  "find_worksheet [] worksheet_name worksheet = worksheet"
| "find_worksheet (sheet # rest) worksheet_name worksheet =
     find_worksheet rest worksheet_name
       (if title_text sheet = worksheet_name then Some sheet else worksheet)"

definition select_worksheet ::
  "worksheet_entry list \<Rightarrow> string option \<Rightarrow> string \<Rightarrow> exn + worksheet_entry" where
  "select_worksheet entries worksheet_name spreadsheet_key =
     (case worksheet_name of
        Some name \<Rightarrow>
          (case find_worksheet entries name None of
             None \<Rightarrow>
               Inl (RemoteMappingFileError (''The worksheet name '' @ squote name @
                 '' could not be found in the Google Spreadsheet with key '' @
                 squote spreadsheet_key @ ''.''))
           | Some worksheet \<Rightarrow> Inr worksheet)
      | None \<Rightarrow> Inr (hd entries))"

text \<open>
  The function from the point where the worksheet ID is known: the headers, the empty
  header check, the export and the writer.
\<close>

definition load_worksheet :: "client \<Rightarrow> string \<Rightarrow> string \<Rightarrow> (exn + string) option" where
  "load_worksheet client spreadsheet_key worksheet_id =
     (case get_spreadsheet_headers client spreadsheet_key worksheet_id of
        None \<Rightarrow> None
      | Some (Inl e) \<Rightarrow> Some (Inl e)
      | Some (Inr headers) \<Rightarrow>
          if length headers < 1
          then Some (Inl (RemoteMappingFileError
                 (''Could not load mapping file header (it appears to be empty). Is your'' @
                  '' Google Spreadsheet with key '' @ squote spreadsheet_key @ '' empty?'')))
          else (case export_mapping_file client spreadsheet_key worksheet_id headers of
                  Inl e \<Rightarrow> Some (Inl e)
                | Inr mapping_lines \<Rightarrow> Some (Inr (writerows mapping_lines))))"

text \<open>
  \<open>client\<close> stands for the \<open>SpreadsheetsService\<close> the function creates. Only
  \<open>gaierror\<close> from the first call is caught; the worksheet list is not empty where
  \<open>entry[0]\<close> is read.
\<close>

definition load_google_spreadsheet_mapping_file ::
  "client \<Rightarrow> string \<Rightarrow> string option \<Rightarrow> (exn + string) option" where
  "load_google_spreadsheet_mapping_file client spreadsheet_key worksheet_name =
     (let spreadsheet_key = extract_spreadsheet_key_from_url spreadsheet_key
      in case GetWorksheetsFeed client spreadsheet_key of
           Inl e \<Rightarrow>
             if e = Gaierror
             then Some (Inl (RemoteMappingFileConnectionError
                    (''Could not establish connection with server. Do you have an active'' @
                     '' Internet connection?'')))
             else Some (Inl e)
         | Inr entries \<Rightarrow>
             if length entries < 1
             then Some (Inl (RemoteMappingFileError
                    (''The Google Spreadsheet with key '' @ squote spreadsheet_key @
                     '' does not have any worksheets associated with it.'')))
             else (case select_worksheet entries worksheet_name spreadsheet_key of
                     Inl e \<Rightarrow> Some (Inl e)
                   | Inr worksheet \<Rightarrow>
                       let worksheet_id = last (str_split (id_text worksheet) ''/'')
                       in load_worksheet client spreadsheet_key worksheet_id))"

subsection \<open>Auxiliary notions for the properties\<close>

text \<open>The name the second loop gives to the occurrence number \<open>k\<close> of a sanitized header.\<close>

definition suffixed :: "string \<Rightarrow> int \<Rightarrow> string" where
  "suffixed s k = (if k > 0 then s @ ''_'' @ format_d k else s)"

text \<open>
  The serializer in the words of the specification: the text of a cell, the tab-joined
  lines ended by a newline, and the trivial splitter on newlines and tabs (the piece after
  the last newline is dropped). A plain cell holds none of the characters the writer
  treats specially; a lone blank is a row of one blank cell.
\<close>

definition cell_text :: "cell \<Rightarrow> string" where
  "cell_text field = (case field of None \<Rightarrow> [] | Some s \<Rightarrow> s)"

definition tsv_lines :: "cell list list \<Rightarrow> string" where
  "tsv_lines table = concat (map (\<lambda>row. join_fields (map cell_text row) @ [CHR 0x0A]) table)"

definition tsv_resplit :: "string \<Rightarrow> string list list" where
  "tsv_resplit out = map (\<lambda>line. str_split line [CHR 0x09]) (butlast (str_split out [CHR 0x0A]))"

text \<open>Texts joined by tabs, written without the join of the writer.\<close>

definition tab_joined :: "string list \<Rightarrow> string" where
  "tab_joined texts =
     (case texts of [] \<Rightarrow> [] | f # fs \<Rightarrow> f @ concat (map (\<lambda>g. CHR 0x09 # g) fs))"

definition plain_cell :: "cell \<Rightarrow> bool" where
  "plain_cell field =
     list_all (\<lambda>c. c \<notin> set [CHR 0x09, CHR 0x22, CHR 0x0A, CHR 0x00]) (cell_text field)"

definition lone_blank :: "cell list \<Rightarrow> bool" where
  "lone_blank row = (length row = 1 \<and> cell_text (hd row) = [])"

text \<open>
  The comment rows of the specification: the first cell of the row, after leading
  whitespace, starts with \<open>#\<close>.
\<close>

definition comment_row :: "string \<Rightarrow> row \<Rightarrow> bool" where
  "comment_row first_header row =
     (case row first_header of
        Some (Some text) \<Rightarrow> startswith (str_lstrip text) ''#''
      | _ \<Rightarrow> False)"

subsection \<open>Example data\<close>

text \<open>A spreadsheet with three worksheets, two of them with the same title.\<close>

definition sheet1 :: worksheet_entry where
  "sheet1 = \<lparr>title_text = ''Fasting_Map'', id_text = ''https://spreadsheets.google.com/feeds/worksheets/KEY/public/basic/od6''\<rparr>"

definition sheet2 :: worksheet_entry where
  "sheet2 = \<lparr>title_text = ''Notes'', id_text = ''https://spreadsheets.google.com/feeds/worksheets/KEY/public/basic/od7''\<rparr>"

definition sheet3 :: worksheet_entry where
  "sheet3 = \<lparr>title_text = ''Fasting_Map'', id_text = ''https://spreadsheets.google.com/feeds/worksheets/KEY/public/basic/od8''\<rparr>"

definition example_rows :: "row list" where
  "example_rows =
     [map_of [(''sampleid'', Some ''#Example mapping file''), (''treatment'', None)],
      map_of [(''sampleid'', Some ''PC.354''), (''treatment'', Some ''Control'')],
      map_of [(''sampleid'', Some ''PC.607''), (''treatment'', None)]]"

definition example_client :: "(exn + worksheet_entry list) \<Rightarrow> row list \<Rightarrow> client" where
  "example_client worksheets rows =
     \<lparr>GetWorksheetsFeed = (\<lambda>key. worksheets),
      GetCellsFeed = (\<lambda>key worksheet_id.
        if worksheet_id = ''od6''
        then Inr \<lparr>cells_entry = [''#SampleID''], cells_next_link = Some ''page2''\<rparr>
        else Inr \<lparr>cells_entry = [], cells_next_link = None\<rparr>),
      GetListFeed = (\<lambda>key worksheet_id.
        Inr \<lparr>list_entry = rows, list_next_link = None\<rparr>),
      Get = (\<lambda>href.
        if href = ''page2''
        then Inr \<lparr>cells_entry = [''Treatment''], cells_next_link = None\<rparr>
        else Inl (ServiceError href))\<rparr>"

text \<open>
  A service whose two worksheets titled \<open>Fasting_Map\<close> hold different data: the first
  (\<open>od6\<close>) one header and one row, the last (\<open>od8\<close>) the example mapping file.
\<close>

definition first_sheet_rows :: "row list" where
  "first_sheet_rows = [map_of [(''note'', Some ''first worksheet'')]]"

definition duplicate_title_client :: client where
  "duplicate_title_client =
     \<lparr>GetWorksheetsFeed = (\<lambda>key. Inr [sheet1, sheet2, sheet3]),
      GetCellsFeed = (\<lambda>key worksheet_id.
        if worksheet_id = ''od8''
        then Inr \<lparr>cells_entry = [''#SampleID'', ''Treatment''], cells_next_link = None\<rparr>
        else if worksheet_id = ''od6''
        then Inr \<lparr>cells_entry = [''Note''], cells_next_link = None\<rparr>
        else Inr \<lparr>cells_entry = [], cells_next_link = None\<rparr>),
      GetListFeed = (\<lambda>key worksheet_id.
        if worksheet_id = ''od8''
        then Inr \<lparr>list_entry = example_rows, list_next_link = None\<rparr>
        else Inr \<lparr>list_entry = first_sheet_rows, list_next_link = None\<rparr>),
      Get = (\<lambda>href. Inl (ServiceError href))\<rparr>"

text \<open>Row feeds for the header row \<open>#SampleID\<close>, \<open>Treatment\<close>.\<close>

definition late_comment_rows :: "row list" where
  "late_comment_rows =
     [map_of [(''sampleid'', Some ''#Example mapping file''), (''treatment'', None)],
      map_of [(''sampleid'', Some ''PC.354''), (''treatment'', Some ''Control'')],
      map_of [(''sampleid'', Some '' #late comment''), (''treatment'', Some ''Fast'')]]"

definition short_comment_rows :: "row list" where
  "short_comment_rows = [map_of [(''sampleid'', Some ''#note'')]]"

definition missing_cell_rows :: "row list" where
  "missing_cell_rows =
     [map_of [(''sampleid'', Some ''PC.354''), (''treatment'', Some ''Control'')],
      map_of [(''sampleid'', Some ''PC.355'')]]"

definition two_comment_rows :: "row list" where
  "two_comment_rows =
     [map_of [(''sampleid'', Some ''#Example mapping file''), (''treatment'', None)],
      map_of [(''sampleid'', Some '' #second comment''), (''treatment'', Some ''x'')],
      map_of [(''sampleid'', Some ''PC.354''), (''treatment'', Some ''Control'')]]"

text \<open>Tables for the writer.\<close>

definition tab_cell_table :: "cell list list" where
  "tab_cell_table = [[Some [CHR ''a'', CHR 0x09, CHR ''b'']]]"

definition tab_quote_cell :: string where
  "tab_quote_cell = [CHR ''a'', CHR 0x22, CHR ''b'', CHR 0x09]"

definition quote_cell_table :: "cell list list" where
  "quote_cell_table = [[Some ''Description''], [Some [CHR ''5'', CHR 0x22, CHR '' '', CHR ''m'']]]"

definition plain_table :: "cell list list" where
  "plain_table =
     [[Some ''#SampleID'', Some ''Treatment''],
      [Some ''#Example mapping file''],
      [Some ''PC.354'', Some ''Control''],
      [Some ''PC.607'', None]]"

section \<open>Properties\<close>

subsection \<open>Strings\<close>

lemma startswith_iff: "startswith s p \<longleftrightarrow> (\<exists>r. s = p @ r)"
proof
  assume "startswith s p"
  then have "s = p @ drop (length p) s"
    by (metis append_take_drop_id startswith_def)
  then show "\<exists>r. s = p @ r" ..
next
  assume "\<exists>r. s = p @ r"
  then show "startswith s p" by (auto simp: startswith_def)
qed

lemma str_contains_iff: "str_contains sub s \<longleftrightarrow> (\<exists>p r. s = p @ sub @ r)"
proof (induction s)
  case Nil
  then show ?case by simp
next
  case (Cons c cs)
  show ?case
  proof
    assume "str_contains sub (c # cs)"
    then consider "startswith (c # cs) sub" | "str_contains sub cs" by auto
    then show "\<exists>p r. c # cs = p @ sub @ r"
    proof cases
      case 1
      then obtain r where "c # cs = sub @ r" by (auto simp: startswith_iff)
      then have "c # cs = [] @ sub @ r" by simp
      then show ?thesis by blast
    next
      case 2
      with Cons.IH obtain p r where "cs = p @ sub @ r" by blast
      then have "c # cs = (c # p) @ sub @ r" by simp
      then show ?thesis by blast
    qed
  next
    assume "\<exists>p r. c # cs = p @ sub @ r"
    then obtain p r where pr: "c # cs = p @ sub @ r" by blast
    show "str_contains sub (c # cs)"
    proof (cases p)
      case Nil
      with pr have "startswith (c # cs) sub" by (auto simp: startswith_iff)
      then show ?thesis by simp
    next
      case (Cons a p')
      with pr have "cs = p' @ sub @ r" by simp
      with Cons.IH have "str_contains sub cs" by blast
      then show ?thesis by simp
    qed
  qed
qed

lemma str_partition_None:
  "sep \<noteq> [] \<Longrightarrow> str_partition s sep = None \<longleftrightarrow> \<not> str_contains sep s"
  by (induction s) (auto split: option.splits)

lemma str_split_not_Nil: "str_split s sep \<noteq> []"
  by (subst str_split.simps) (simp split: option.splits)

lemma str_split_no_sep: "\<not> str_contains sep s \<Longrightarrow> str_split s sep = [s]"
proof (cases "sep = []")
  case True
  assume "\<not> str_contains sep s"
  have "str_partition s sep = None" unfolding True by (induction s) simp_all
  then show ?thesis by (subst str_split.simps) simp
next
  case False
  assume "\<not> str_contains sep s"
  with False have "str_partition s sep = None" by (simp add: str_partition_None)
  then show ?thesis by (subst str_split.simps) simp
qed

lemma last_str_split:
  assumes "sep \<noteq> []"
  shows "\<not> str_contains sep (last (str_split s sep)) \<and>
         (str_contains sep s \<longrightarrow> (\<exists>p. s = p @ sep @ last (str_split s sep)))"
  using assms
proof (induction s sep rule: str_split.induct)
  case (1 s sep)
  show ?case
  proof (cases "str_partition s sep")
    case None
    then have "str_split s sep = [s]" by (subst str_split.simps) simp
    moreover from None "1.prems" have "\<not> str_contains sep s"
      by (simp add: str_partition_None)
    ultimately show ?thesis by simp
  next
    case (Some ba)
    obtain before after where ba: "ba = (before, after)" by (cases ba)
    let ?l = "last (str_split after sep)"
    from Some ba have split: "str_split s sep = before # str_split after sep"
      by (subst str_split.simps) simp
    then have l: "last (str_split s sep) = ?l" by (simp add: str_split_not_Nil)
    from Some ba have s: "s = before @ sep @ after" by (simp add: str_partition_Some)
    from "1.IH"[OF Some ba[symmetric] "1.prems"]
    have IH: "\<not> str_contains sep ?l"
      "str_contains sep after \<Longrightarrow> \<exists>p. after = p @ sep @ ?l" by simp_all
    have "\<exists>p. s = p @ sep @ ?l"
    proof (cases "str_contains sep after")
      case True
      with IH(2) obtain p where "after = p @ sep @ ?l" by blast
      with s have "s = (before @ sep @ p) @ sep @ ?l" by simp
      then show ?thesis by blast
    next
      case False
      then have "?l = after" by (simp add: str_split_no_sep)
      with s show ?thesis by auto
    qed
    with IH(1) l show ?thesis by simp
  qed
qed

lemma key_last_occurrence:
  assumes "url = p @ ''key='' @ r" and "\<not> str_contains ''key='' r"
    and "url = b @ ''key='' @ r'"
  shows "length b \<le> length p"
proof (rule ccontr)
  assume "\<not> length b \<le> length p"
  then have "length p < length b" by simp
  with assms(1,3) obtain u where u: "b = p @ u" "u \<noteq> []"
    by (metis append_eq_append_conv2 length_append not_add_less1 append.right_neutral)
  with assms(1,3) have eq: "''key='' @ r = u @ ''key='' @ r'" by simp
  have "\<exists>v. r = v @ ''key='' @ r'"
  proof (cases u)
    case Nil
    with u show ?thesis by simp
  next
    case u1: (Cons a1 u1)
    show ?thesis
    proof (cases u1)
      case Nil
      with u1 eq show ?thesis by simp
    next
      case u2: (Cons a2 u2)
      show ?thesis
      proof (cases u2)
        case Nil
        with u1 u2 eq show ?thesis by simp
      next
        case u3: (Cons a3 u3)
        show ?thesis
        proof (cases u3)
          case Nil
          with u1 u2 u3 eq show ?thesis by simp
        next
          case (Cons a4 u4)
          with u1 u2 u3 eq have "r = u4 @ ''key='' @ r'" by simp
          then show ?thesis ..
        qed
      qed
    qed
  qed
  with assms(2) show False by (simp add: str_contains_iff)
qed

lemma str_partition_char:
  "str_partition s [c] =
     (if c \<in> set s then Some (takeWhile (\<lambda>x. x \<noteq> c) s, tl (dropWhile (\<lambda>x. x \<noteq> c) s)) else None)"
  by (induction s) (auto simp: startswith_def)

lemma hd_str_split_char: "hd (str_split s [c]) = takeWhile (\<lambda>x. x \<noteq> c) s"
proof (cases "c \<in> set s")
  case True
  then show ?thesis by (subst str_split.simps) (simp add: str_partition_char)
next
  case False
  then have "\<forall>x\<in>set s. x \<noteq> c" by auto
  then have "s = takeWhile (\<lambda>x. x \<noteq> c) s" by (rule takeWhile_eq_all_conv[THEN iffD2, symmetric])
  with False show ?thesis by (subst str_split.simps) (simp add: str_partition_char)
qed

lemma takeWhile_no_sep:
  assumes "\<not> str_contains sep r"
  shows "\<not> str_contains sep (takeWhile P r)"
proof
  assume "str_contains sep (takeWhile P r)"
  then obtain p q where "takeWhile P r = p @ sep @ q" by (auto simp: str_contains_iff)
  then have "r = p @ sep @ (q @ dropWhile P r)"
    by (metis append.assoc takeWhile_dropWhile_id)
  with assms show False by (auto simp: str_contains_iff)
qed


lemma str_replace_empty: "str_replace s old [] = filter (\<lambda>c. c \<noteq> old) s"
  by (induction s) (simp_all add: str_replace_def)

lemma digit_char_inj:
  assumes "d < 10" "e < 10" "digit_char d = digit_char e"
  shows "d = e"
proof -
  have cases10: "\<And>k::nat. k < 10 \<Longrightarrow> k \<in> {0,1,2,3,4,5,6,7,8,9}" by auto
  from cases10[OF assms(1)] cases10[OF assms(2)] assms(3) show ?thesis
    by (auto simp: digit_char_def)
qed

lemma str_of_nat_nonempty: "str_of_nat n \<noteq> []"
  by (subst str_of_nat.simps) simp

lemma str_of_nat_inj: "str_of_nat n = str_of_nat m \<Longrightarrow> n = m"
proof (induction n arbitrary: m rule: str_of_nat.induct)
  case (1 n)
  show ?case
  proof (cases "n < 10")
    case small: True
    show ?thesis
    proof (cases "m < 10")
      case True
      with small "1.prems" show ?thesis
        by (simp add: str_of_nat.simps[of n] str_of_nat.simps[of m] digit_char_inj)
    next
      case False
      with small "1.prems" str_of_nat_nonempty[of "m div 10"] show ?thesis
        by (simp add: str_of_nat.simps[of n] str_of_nat.simps[of m])
    qed
  next
    case big: False
    show ?thesis
    proof (cases "m < 10")
      case True
      with big "1.prems" str_of_nat_nonempty[of "n div 10"] show ?thesis
        by (simp add: str_of_nat.simps[of n] str_of_nat.simps[of m])
    next
      case False
      with big "1.prems" have eq: "str_of_nat (n div 10) = str_of_nat (m div 10)"
        and dg: "digit_char (n mod 10) = digit_char (m mod 10)"
        by (simp_all add: str_of_nat.simps[of n] str_of_nat.simps[of m])
      from "1.IH"[OF big eq] have "n div 10 = m div 10" .
      moreover from dg have "n mod 10 = m mod 10"
        by (intro digit_char_inj) simp_all
      ultimately show ?thesis
        by (metis div_mult_mod_eq)
    qed
  qed
qed

lemma format_d_inj_nonneg: "0 \<le> i \<Longrightarrow> 0 \<le> j \<Longrightarrow> format_d i = format_d j \<Longrightarrow> i = j"
  by (auto simp: format_d_def dest: str_of_nat_inj)

subsection \<open>The key extractor\<close>

lemma extract_key_eq:
  "extract_spreadsheet_key_from_url url =
     (if str_contains ''key='' url
      then takeWhile (\<lambda>c. c \<noteq> CHR ''&'')
             (takeWhile (\<lambda>c. c \<noteq> CHR ''#'') (last (str_split url ''key='')))
      else url)"
  by (simp add: extract_spreadsheet_key_from_url_def hd_str_split_char)

lemma extract_no_key: "\<not> str_contains ''key='' (extract_spreadsheet_key_from_url s)"
proof (cases "str_contains ''key='' s")
  case True
  have "\<not> str_contains ''key='' (last (str_split s ''key=''))"
    using last_str_split[of "''key=''" s] by simp
  then show ?thesis using True by (simp add: extract_key_eq takeWhile_no_sep)
next
  case False
  then show ?thesis by (simp add: extract_key_eq)
qed


text \<open>
  C5. When the string contains \<open>key=\<close>, the result is the portion after the last
  occurrence of \<open>key=\<close> (no occurrence starts further right), truncated at the first
  \<open>#\<close> and then at the first \<open>&\<close>; otherwise the string is returned unchanged.
\<close>

theorem extract_key_after_last_occurrence:
  "((\<exists>p r. url = p @ ''key='' @ r) \<longrightarrow>
      (\<exists>before rest. url = before @ ''key='' @ rest \<and>
         (\<forall>b r. url = b @ ''key='' @ r \<longrightarrow> length b \<le> length before) \<and>
         extract_spreadsheet_key_from_url url =
           takeWhile (\<lambda>c. c \<noteq> CHR ''&'') (takeWhile (\<lambda>c. c \<noteq> CHR ''#'') rest))) \<and>
   (\<not> (\<exists>p r. url = p @ ''key='' @ r) \<longrightarrow> extract_spreadsheet_key_from_url url = url)"
proof (intro conjI impI)
  assume "\<exists>p r. url = p @ ''key='' @ r"
  then have c: "str_contains ''key='' url" by (simp add: str_contains_iff)
  let ?rest = "last (str_split url ''key='')"
  from last_str_split[of "''key=''" url] c obtain before where
    b: "url = before @ ''key='' @ ?rest" and n: "\<not> str_contains ''key='' ?rest" by auto
  have "\<forall>b r. url = b @ ''key='' @ r \<longrightarrow> length b \<le> length before"
    using key_last_occurrence[OF b n] by blast
  moreover from c have "extract_spreadsheet_key_from_url url =
      takeWhile (\<lambda>c. c \<noteq> CHR ''&'') (takeWhile (\<lambda>c. c \<noteq> CHR ''#'') ?rest)"
    by (simp add: extract_key_eq)
  ultimately show "\<exists>before rest. url = before @ ''key='' @ rest \<and>
         (\<forall>b r. url = b @ ''key='' @ r \<longrightarrow> length b \<le> length before) \<and>
         extract_spreadsheet_key_from_url url =
           takeWhile (\<lambda>c. c \<noteq> CHR ''&'') (takeWhile (\<lambda>c. c \<noteq> CHR ''#'') rest)"
    using b by blast
next
  assume "\<not> (\<exists>p r. url = p @ ''key='' @ r)"
  then show "extract_spreadsheet_key_from_url url = url"
    by (simp add: extract_key_eq str_contains_iff)
qed

theorem extract_key_after_last_occurrence_witness:
  "(\<exists>p r. ''a?key=1&key=2#3&4'' = p @ ''key='' @ r) \<and>
   (\<exists>before rest. ''a?key=1&key=2#3&4'' = before @ ''key='' @ rest \<and>
      (\<forall>b r. ''a?key=1&key=2#3&4'' = b @ ''key='' @ r \<longrightarrow> length b \<le> length before) \<and>
      extract_spreadsheet_key_from_url ''a?key=1&key=2#3&4'' =
        takeWhile (\<lambda>c. c \<noteq> CHR ''&'') (takeWhile (\<lambda>c. c \<noteq> CHR ''#'') rest)) \<and>
   \<not> (\<exists>p r. ''0AnzKEY'' = p @ ''key='' @ r) \<and>
   extract_spreadsheet_key_from_url ''0AnzKEY'' = ''0AnzKEY''"
proof -
  have yes: "\<exists>p r. ''a?key=1&key=2#3&4'' = p @ ''key='' @ r"
    unfolding str_contains_iff[symmetric] by (simp add: startswith_def)
  have no: "\<not> (\<exists>p r. ''0AnzKEY'' = p @ ''key='' @ r)"
    unfolding str_contains_iff[symmetric] by (simp add: startswith_def)
  from yes no extract_key_after_last_occurrence[of "''a?key=1&key=2#3&4''"]
    extract_key_after_last_occurrence[of "''0AnzKEY''"]
  show ?thesis by blast
qed

text \<open>
  C10. The key extractor is idempotent: its result never contains \<open>key=\<close>, so a second
  application returns it unchanged.
\<close>

theorem extract_key_idempotent:
  "extract_spreadsheet_key_from_url (extract_spreadsheet_key_from_url s) =
     extract_spreadsheet_key_from_url s \<and>
   \<not> str_contains ''key='' (extract_spreadsheet_key_from_url s)"
  using extract_no_key[of s] extract_key_eq[of "extract_spreadsheet_key_from_url s"] by simp

subsection \<open>The header cleaner\<close>

lemma sanitize_no_underscore: "CHR ''_'' \<notin> set (sanitize header)"
  by (simp add: sanitize_def str_replace_empty)

lemma underscore_split_unique:
  assumes "CHR ''_'' \<notin> set s" "CHR ''_'' \<notin> set t" "s @ ''_'' @ a = t @ ''_'' @ b"
  shows "s = t \<and> a = b"
proof -
  let ?P = "\<lambda>c. c \<noteq> CHR ''_''"
  have tw: "\<And>u v. CHR ''_'' \<notin> set u \<Longrightarrow> takeWhile ?P (u @ ''_'' @ v) = u"
    subgoal for u v by (induction u) auto
    done
  from assms(1) have "takeWhile ?P (s @ ''_'' @ a) = s" by (rule tw)
  moreover from assms(2) have "takeWhile ?P (t @ ''_'' @ b) = t" by (rule tw)
  ultimately have "s = t" using assms(3) by simp
  with assms(3) show ?thesis by simp
qed

lemma suffixed_inj:
  assumes "CHR ''_'' \<notin> set s" "CHR ''_'' \<notin> set t" "0 \<le> k" "0 \<le> j"
    and "suffixed s k = suffixed t j"
  shows "s = t \<and> k = j"
proof (cases "k > 0")
  case kpos: True
  show ?thesis
  proof (cases "j > 0")
    case True
    with kpos assms(5) have "s @ ''_'' @ format_d k = t @ ''_'' @ format_d j"
      by (simp add: suffixed_def)
    from underscore_split_unique[OF assms(1,2) this] assms(3,4) show ?thesis
      by (auto dest: format_d_inj_nonneg)
  next
    case False
    with kpos assms(5) have "t = s @ ''_'' @ format_d k" by (simp add: suffixed_def)
    with assms(2) show ?thesis by simp
  qed
next
  case kzero: False
  show ?thesis
  proof (cases "j > 0")
    case True
    with kzero assms(5) have "s = t @ ''_'' @ format_d j" by (simp add: suffixed_def)
    with assms(1) show ?thesis by simp
  next
    case False
    with kzero assms show ?thesis by (simp add: suffixed_def)
  qed
qed

lemma dedup_loop_length:
  "length (dedup_loop zs header_count results) = length results + length zs"
  by (induction zs arbitrary: header_count results) (auto simp: Let_def)

text \<open>
  The invariant of the second loop: every name produced so far is the name of a pair
  \<open>(s, k)\<close> with \<open>k\<close> below the current count of \<open>s\<close>, so the next name is new.
\<close>

lemma dedup_loop_distinct:
  assumes "\<forall>z \<in> set zs. CHR ''_'' \<notin> set (snd z)"
    and "\<forall>s. 0 \<le> header_count s"
    and "distinct results"
    and "\<forall>r \<in> set results. \<exists>s k. CHR ''_'' \<notin> set s \<and> 0 \<le> k \<and> k < header_count s \<and> r = suffixed s k"
  shows "distinct (dedup_loop zs header_count results)"
  using assms
proof (induction zs arbitrary: header_count results)
  case Nil
  then show ?case by simp
next
  case (Cons z rest)
  obtain header cleaned_header where z: "z = (header, cleaned_header)" by (cases z)
  note prems = Cons.prems [unfolded z]
  let ?k = "header_count cleaned_header"
  let ?new = "suffixed cleaned_header ?k"
  let ?hc = "header_count(cleaned_header := ?k + 1)"
  from prems(1) have clean: "CHR ''_'' \<notin> set cleaned_header" by simp
  from prems(2) have kpos: "0 \<le> ?k" by simp
  have fresh: "?new \<notin> set results"
  proof
    assume "?new \<in> set results"
    with prems(4) obtain s k where sk: "CHR ''_'' \<notin> set s" "0 \<le> k" "k < header_count s"
      "?new = suffixed s k" by blast
    from suffixed_inj[OF clean sk(1) kpos sk(2) sk(4)] sk(3) show False by auto
  qed
  have "distinct (dedup_loop rest ?hc (results @ [?new]))"
  proof (rule Cons.IH)
    show "\<forall>z\<in>set rest. CHR ''_'' \<notin> set (snd z)" using prems(1) by simp
    show "\<forall>s. 0 \<le> ?hc s" using prems(2) by simp
    show "distinct (results @ [?new])" using prems(3) fresh by simp
    show "\<forall>r\<in>set (results @ [?new]). \<exists>s k. CHR ''_'' \<notin> set s \<and> 0 \<le> k \<and> k < ?hc s \<and> r = suffixed s k"
    proof
      fix r assume "r \<in> set (results @ [?new])"
      then consider "r \<in> set results" | "r = ?new" by auto
      then show "\<exists>s k. CHR ''_'' \<notin> set s \<and> 0 \<le> k \<and> k < ?hc s \<and> r = suffixed s k"
      proof cases
        case 1
        with prems(4) obtain s k where "CHR ''_'' \<notin> set s" "0 \<le> k" "k < header_count s"
          "r = suffixed s k" by blast
        then show ?thesis by (intro exI[of _ s] exI[of _ k]) auto
      next
        case 2
        with clean kpos show ?thesis
          by (intro exI[of _ cleaned_header] exI[of _ ?k]) simp
      qed
    qed
  qed
  then show ?case by (simp add: z Let_def suffixed_def)
qed

text \<open>
  C1. For every list of headers, \<open>_get_cleaned_headers\<close> returns a list of the same
  length whose elements are pairwise distinct.
\<close>

theorem get_cleaned_headers_length_distinct:
  "length (get_cleaned_headers headers) = length headers \<and>
   distinct (get_cleaned_headers headers)"
proof
  show "length (get_cleaned_headers headers) = length headers"
    by (simp add: get_cleaned_headers_def dedup_loop_length)
  have "\<forall>z \<in> set (zip headers (map sanitize headers)). CHR ''_'' \<notin> set (snd z)"
    by (auto simp: in_set_zip sanitize_no_underscore)
  then show "distinct (get_cleaned_headers headers)"
    unfolding get_cleaned_headers_def Let_def
    by (intro dedup_loop_distinct) simp_all
qed

text \<open>
  C4. The two reference cases of the test suite: seven headers that collide on \<open>foo\<close>,
  and two headers that do not collide.
\<close>

theorem get_cleaned_headers_reference_cases:
  "get_cleaned_headers [''foo'', ''Foo'', ''FOO'', ''F_oO'', ''F:Oo_o'', ''#Foo'', ''f O O#''] =
     [''foo'', ''foo_1'', ''foo_2'', ''foo_3'', ''fooo'', ''foo_4'', ''foo_5''] \<and>
   get_cleaned_headers [''Fo#o'', ''bar''] = [''foo'', ''bar'']"
  by (simp add: get_cleaned_headers_def sanitize_def str_replace_def str_lower_def
      lower_char_def format_d_def digit_char_def str_of_nat.simps)

lemma example_cleaned:
  "get_cleaned_headers [''#SampleID'', ''Treatment''] = [''sampleid'', ''treatment'']"
  by (simp add: get_cleaned_headers_def sanitize_def str_replace_def str_lower_def
      lower_char_def)

subsection \<open>Loading: worksheet selection and errors\<close>

lemma find_worksheet_filter:
  "find_worksheet entries name worksheet =
     (if filter (\<lambda>sheet. title_text sheet = name) entries = [] then worksheet
      else Some (last (filter (\<lambda>sheet. title_text sheet = name) entries)))"
  by (induction entries arbitrary: worksheet) simp_all

lemma get_headers_loop_Some_client:
  assumes r: "get_headers_loop c1 feed headers = Some y" and g: "Get c1 = Get c2"
  shows "get_headers_loop c2 feed headers = Some y"
proof -
  have "Get c1 = Get c2 \<longrightarrow> get_headers_loop c2 feed headers = Some y"
  proof (rule get_headers_loop.raw_induct
      [where P = "\<lambda>c f h y. Get c = Get c2 \<longrightarrow> get_headers_loop c2 f h = Some y", OF _ r])
    fix loop' :: "client \<Rightarrow> cells_feed \<Rightarrow> string list \<Rightarrow> (exn + string list) option"
      and c :: client and f :: cells_feed and h y
    assume IH: "\<And>c f h y. loop' c f h = Some y \<Longrightarrow>
        Get c = Get c2 \<longrightarrow> get_headers_loop c2 f h = Some y"
      and eq: "(let headers = h @ cells_entry f
        in case cells_next_link f of
             None \<Rightarrow> Some (Inr headers)
           | Some href \<Rightarrow>
               (case Get c href of
                  Inl e \<Rightarrow> Some (Inl e)
                | Inr feed \<Rightarrow> loop' c feed headers)) = Some y"
    show "Get c = Get c2 \<longrightarrow> get_headers_loop c2 f h = Some y"
    proof
      assume gc: "Get c = Get c2"
      show "get_headers_loop c2 f h = Some y"
      proof (cases "cells_next_link f")
        case None
        with eq show ?thesis by (subst get_headers_loop.simps) (simp add: Let_def)
      next
        case (Some href)
        show ?thesis
        proof (cases "Get c href")
          case (Inl e)
          with Some eq gc show ?thesis
            by (subst get_headers_loop.simps) (simp add: Let_def)
        next
          case (Inr feed')
          with Some eq have "loop' c feed' (h @ cells_entry f) = Some y"
            by (simp add: Let_def)
          from IH[OF this] gc have "get_headers_loop c2 feed' (h @ cells_entry f) = Some y"
            by simp
          with Some Inr gc show ?thesis
            by (subst get_headers_loop.simps) (simp add: Let_def)
        qed
      qed
    qed
  qed
  with g show ?thesis by simp
qed

lemma get_headers_loop_client:
  assumes "Get client' = Get client"
  shows "get_headers_loop client' feed headers = get_headers_loop client feed headers"
proof (cases "get_headers_loop client' feed headers")
  case None
  show ?thesis
  proof (cases "get_headers_loop client feed headers")
    case (Some y)
    from get_headers_loop_Some_client[OF Some assms[symmetric]] None show ?thesis by simp
  qed (simp add: None)
next
  case (Some y)
  from get_headers_loop_Some_client[OF Some assms] Some show ?thesis by simp
qed

lemma load_worksheet_client:
  assumes "GetCellsFeed client' key wsid = GetCellsFeed client key wsid"
    and "GetListFeed client' key wsid = GetListFeed client key wsid"
    and "Get client' = Get client"
  shows "load_worksheet client' key wsid = load_worksheet client key wsid"
proof -
  from assms(2)
  have e: "export_mapping_file client' key wsid = export_mapping_file client key wsid"
    by (intro ext) (simp add: export_mapping_file_def)
  from assms(1,3)
  have h: "get_spreadsheet_headers client' key wsid = get_spreadsheet_headers client key wsid"
    by (simp add: get_spreadsheet_headers_def get_headers_loop_client[OF assms(3)]
        split: sum.splits)
  show ?thesis unfolding load_worksheet_def e h by (rule refl)
qed

lemma load_named:
  assumes "GetWorksheetsFeed client (extract_spreadsheet_key_from_url key) = Inr entries"
    and "filter (\<lambda>sheet. title_text sheet = name) entries \<noteq> []"
  shows "load_google_spreadsheet_mapping_file client key (Some name) =
     load_worksheet client (extract_spreadsheet_key_from_url key)
       (last (str_split (id_text (last (filter (\<lambda>sheet. title_text sheet = name) entries))) ''/''))"
proof -
  from assms(2) have "entries \<noteq> []" by auto
  then have "\<not> length entries < 1" by (cases entries) simp_all
  with assms show ?thesis
    by (simp add: load_google_spreadsheet_mapping_file_def select_worksheet_def
        find_worksheet_filter Let_def)
qed

text \<open>
  C9. When more than one worksheet has the requested title, the search ends on the last
  one in feed order, and every later fetch is made with the ID of that worksheet: the
  header cells are those of \<open>GetCellsFeed\<close> for the key and that ID, the rows are those
  of \<open>GetListFeed\<close> for the key and that ID, and the result does not depend on what the
  service returns for any other worksheet ID.
\<close>

theorem load_selects_last_matching_worksheet:
  fixes client :: client and key name :: string and entries :: "worksheet_entry list"
  defines "k \<equiv> extract_spreadsheet_key_from_url key"
    and "selected \<equiv> last (filter (\<lambda>sheet. title_text sheet = name) entries)"
    and "w \<equiv> last (str_split (id_text (last (filter (\<lambda>sheet. title_text sheet = name) entries))) ''/'')"
  assumes "GetWorksheetsFeed client (extract_spreadsheet_key_from_url key) = Inr entries"
    and "1 < length (filter (\<lambda>sheet. title_text sheet = name) entries)"
  shows "find_worksheet entries name None = Some selected \<and>
         load_google_spreadsheet_mapping_file client key (Some name) =
           (case GetCellsFeed client k w of
              Inl e \<Rightarrow> Some (Inl e)
            | Inr cells \<Rightarrow>
                (case get_headers_loop client cells [] of
                   None \<Rightarrow> None
                 | Some (Inl e) \<Rightarrow> Some (Inl e)
                 | Some (Inr headers) \<Rightarrow>
                     if headers = []
                     then Some (Inl (RemoteMappingFileError
                            (''Could not load mapping file header (it appears to be empty). Is your'' @
                             '' Google Spreadsheet with key '' @ squote k @ '' empty?'')))
                     else (case GetListFeed client k w of
                             Inl e \<Rightarrow> Some (Inl e)
                           | Inr rows \<Rightarrow>
                               (case export_rows (zip headers (get_cleaned_headers headers))
                                       (list_entry rows) False [map Some headers] of
                                  Inl e \<Rightarrow> Some (Inl e)
                                | Inr (mapping_lines, found_data) \<Rightarrow>
                                    (case list_next_link rows of
                                       None \<Rightarrow> Some (Inr (writerows mapping_lines))
                                     | Some href \<Rightarrow>
                                         Some (Inl (NameError ''SpreadsheetsListFeedFromString''))))))) \<and>
         (\<forall>client' :: client.
            GetWorksheetsFeed client' k = Inr entries \<and>
            GetCellsFeed client' k w = GetCellsFeed client k w \<and>
            GetListFeed client' k w = GetListFeed client k w \<and>
            Get client' = Get client \<longrightarrow>
            load_google_spreadsheet_mapping_file client' key (Some name) =
              load_google_spreadsheet_mapping_file client key (Some name))"
proof -
  from assms(5) have ne: "filter (\<lambda>sheet. title_text sheet = name) entries \<noteq> []" by auto
  have lw: "load_google_spreadsheet_mapping_file client key (Some name) = load_worksheet client k w"
    unfolding k_def w_def by (rule load_named[OF assms(4) ne])
  show ?thesis
  proof (intro conjI allI impI)
    show "find_worksheet entries name None = Some selected"
      using ne by (simp add: find_worksheet_filter selected_def)
  next
    show "load_google_spreadsheet_mapping_file client key (Some name) =
           (case GetCellsFeed client k w of
              Inl e \<Rightarrow> Some (Inl e)
            | Inr cells \<Rightarrow>
                (case get_headers_loop client cells [] of
                   None \<Rightarrow> None
                 | Some (Inl e) \<Rightarrow> Some (Inl e)
                 | Some (Inr headers) \<Rightarrow>
                     if headers = []
                     then Some (Inl (RemoteMappingFileError
                            (''Could not load mapping file header (it appears to be empty). Is your'' @
                             '' Google Spreadsheet with key '' @ squote k @ '' empty?'')))
                     else (case GetListFeed client k w of
                             Inl e \<Rightarrow> Some (Inl e)
                           | Inr rows \<Rightarrow>
                               (case export_rows (zip headers (get_cleaned_headers headers))
                                       (list_entry rows) False [map Some headers] of
                                  Inl e \<Rightarrow> Some (Inl e)
                                | Inr (mapping_lines, found_data) \<Rightarrow>
                                    (case list_next_link rows of
                                       None \<Rightarrow> Some (Inr (writerows mapping_lines))
                                     | Some href \<Rightarrow>
                                         Some (Inl (NameError ''SpreadsheetsListFeedFromString'')))))))"
      unfolding lw
      by (simp add: load_worksheet_def get_spreadsheet_headers_def export_mapping_file_def Let_def
          split: sum.splits option.splits prod.splits)
  next
    fix client' :: client
    assume a: "GetWorksheetsFeed client' k = Inr entries \<and>
            GetCellsFeed client' k w = GetCellsFeed client k w \<and>
            GetListFeed client' k w = GetListFeed client k w \<and>
            Get client' = Get client"
    then have "load_worksheet client' k w = load_worksheet client k w"
      by (intro load_worksheet_client) simp_all
    moreover from a have "load_google_spreadsheet_mapping_file client' key (Some name) =
        load_worksheet client' k w"
      unfolding k_def w_def by (intro load_named[OF _ ne]) simp
    ultimately show "load_google_spreadsheet_mapping_file client' key (Some name) =
              load_google_spreadsheet_mapping_file client key (Some name)"
      by (simp add: lw)
  qed
qed

lemma find_worksheet_absent:
  "name \<notin> title_text ` set entries \<Longrightarrow> find_worksheet entries name None = None"
  by (auto simp: find_worksheet_filter filter_empty_conv)

text \<open>
  C7. The error cases of \<open>load_google_spreadsheet_mapping_file\<close>: no worksheet (the
  message names the key); worksheets, but none with the requested name (the message names
  the name and the key); an empty header list for the selected worksheet; and
  \<open>gaierror\<close> from the first call, raised again as
  \<open>RemoteMappingFileConnectionError\<close>, which is not a plain \<open>RemoteMappingFileError\<close>.
\<close>

theorem load_error_cases:
  fixes client :: client and key :: string
  defines "k \<equiv> extract_spreadsheet_key_from_url key"
  shows
   "(GetWorksheetsFeed client k = Inr [] \<longrightarrow>
       load_google_spreadsheet_mapping_file client key worksheet_name =
         Some (Inl (RemoteMappingFileError
           (''The Google Spreadsheet with key '' @ squote k @
            '' does not have any worksheets associated with it.'')))) \<and>
    (GetWorksheetsFeed client k = Inr entries \<and> entries \<noteq> [] \<and>
     name \<notin> title_text ` set entries \<longrightarrow>
       load_google_spreadsheet_mapping_file client key (Some name) =
         Some (Inl (RemoteMappingFileError
           (''The worksheet name '' @ squote name @
            '' could not be found in the Google Spreadsheet with key '' @ squote k @ ''.'')))) \<and>
    (GetWorksheetsFeed client k = Inr entries \<and> entries \<noteq> [] \<and>
     select_worksheet entries worksheet_name k = Inr worksheet \<and>
     get_spreadsheet_headers client k (last (str_split (id_text worksheet) ''/'')) =
       Some (Inr []) \<longrightarrow>
       load_google_spreadsheet_mapping_file client key worksheet_name =
         Some (Inl (RemoteMappingFileError
           (''Could not load mapping file header (it appears to be empty). Is your'' @
            '' Google Spreadsheet with key '' @ squote k @ '' empty?'')))) \<and>
    (GetWorksheetsFeed client k = Inl Gaierror \<longrightarrow>
       load_google_spreadsheet_mapping_file client key worksheet_name =
         Some (Inl (RemoteMappingFileConnectionError
           (''Could not establish connection with server. Do you have an active'' @
            '' Internet connection?''))) \<and>
       (\<forall>message. load_google_spreadsheet_mapping_file client key worksheet_name \<noteq>
          Some (Inl (RemoteMappingFileError message))))"
proof (intro conjI impI)
  assume "GetWorksheetsFeed client k = Inr []"
  then show "load_google_spreadsheet_mapping_file client key worksheet_name =
         Some (Inl (RemoteMappingFileError
           (''The Google Spreadsheet with key '' @ squote k @
            '' does not have any worksheets associated with it.'')))"
    by (simp add: load_google_spreadsheet_mapping_file_def k_def)
next
  assume a: "GetWorksheetsFeed client k = Inr entries \<and> entries \<noteq> [] \<and>
     name \<notin> title_text ` set entries"
  then have "\<not> length entries < 1" by (cases entries) simp_all
  with a show "load_google_spreadsheet_mapping_file client key (Some name) =
         Some (Inl (RemoteMappingFileError
           (''The worksheet name '' @ squote name @
            '' could not be found in the Google Spreadsheet with key '' @ squote k @ ''.'')))"
    by (simp add: load_google_spreadsheet_mapping_file_def k_def select_worksheet_def
        find_worksheet_absent)
next
  assume a: "GetWorksheetsFeed client k = Inr entries \<and> entries \<noteq> [] \<and>
     select_worksheet entries worksheet_name k = Inr worksheet \<and>
     get_spreadsheet_headers client k (last (str_split (id_text worksheet) ''/'')) =
       Some (Inr [])"
  then have "\<not> length entries < 1" by (cases entries) simp_all
  with a show "load_google_spreadsheet_mapping_file client key worksheet_name =
         Some (Inl (RemoteMappingFileError
           (''Could not load mapping file header (it appears to be empty). Is your'' @
            '' Google Spreadsheet with key '' @ squote k @ '' empty?'')))"
    by (simp add: load_google_spreadsheet_mapping_file_def k_def[symmetric] load_worksheet_def)
next
  assume a: "GetWorksheetsFeed client k = Inl Gaierror"
  then show c: "load_google_spreadsheet_mapping_file client key worksheet_name =
         Some (Inl (RemoteMappingFileConnectionError
           (''Could not establish connection with server. Do you have an active'' @
            '' Internet connection?'')))"
    by (simp add: load_google_spreadsheet_mapping_file_def k_def)
  from a show "\<forall>message. load_google_spreadsheet_mapping_file client key worksheet_name \<noteq>
          Some (Inl (RemoteMappingFileError message))"
    by (simp add: load_google_spreadsheet_mapping_file_def k_def)
qed

lemma example_key: "extract_spreadsheet_key_from_url ''http://x/ccc?key=KEY#gid=0'' = ''KEY''"
  by code_simp

theorem load_error_cases_witness:
  "GetWorksheetsFeed (example_client (Inr []) example_rows) ''KEY'' = Inr [] \<and>
   load_google_spreadsheet_mapping_file (example_client (Inr []) example_rows) ''http://x/ccc?key=KEY#gid=0'' None =
     Some (Inl (RemoteMappingFileError
       (''The Google Spreadsheet with key '' @ squote ''KEY'' @
        '' does not have any worksheets associated with it.''))) \<and>
   [sheet1, sheet2] \<noteq> [] \<and> ''Map'' \<notin> title_text ` set [sheet1, sheet2] \<and>
   load_google_spreadsheet_mapping_file (example_client (Inr [sheet1, sheet2]) example_rows)
       ''http://x/ccc?key=KEY#gid=0'' (Some ''Map'') =
     Some (Inl (RemoteMappingFileError
       (''The worksheet name '' @ squote ''Map'' @
        '' could not be found in the Google Spreadsheet with key '' @ squote ''KEY'' @ ''.''))) \<and>
   select_worksheet [sheet1, sheet2] (Some ''Notes'') ''KEY'' = Inr sheet2 \<and>
   get_spreadsheet_headers (example_client (Inr [sheet1, sheet2]) example_rows) ''KEY''
       (last (str_split (id_text sheet2) ''/'')) = Some (Inr []) \<and>
   load_google_spreadsheet_mapping_file (example_client (Inr [sheet1, sheet2]) example_rows)
       ''http://x/ccc?key=KEY#gid=0'' (Some ''Notes'') =
     Some (Inl (RemoteMappingFileError
       (''Could not load mapping file header (it appears to be empty). Is your'' @
        '' Google Spreadsheet with key '' @ squote ''KEY'' @ '' empty?''))) \<and>
   GetWorksheetsFeed (example_client (Inl Gaierror) example_rows) ''KEY'' = Inl Gaierror \<and>
   load_google_spreadsheet_mapping_file (example_client (Inl Gaierror) example_rows)
       ''http://x/ccc?key=KEY#gid=0'' None =
     Some (Inl (RemoteMappingFileConnectionError
       (''Could not establish connection with server. Do you have an active'' @
        '' Internet connection?'')))"
proof -
  let ?url = "''http://x/ccc?key=KEY#gid=0''"
  have h1: "GetWorksheetsFeed (example_client (Inr []) example_rows) ''KEY'' = Inr []"
    by (simp add: example_client_def)
  have h2: "GetWorksheetsFeed (example_client (Inr [sheet1, sheet2]) example_rows) ''KEY'' = Inr [sheet1, sheet2]"
    by (simp add: example_client_def)
  have h2': "''Map'' \<notin> title_text ` set [sheet1, sheet2]"
    by (simp add: sheet1_def sheet2_def)
  have h3: "select_worksheet [sheet1, sheet2] (Some ''Notes'') ''KEY'' = Inr sheet2"
    by (simp add: select_worksheet_def sheet1_def sheet2_def)
  have h3': "get_spreadsheet_headers (example_client (Inr [sheet1, sheet2]) example_rows) ''KEY''
       (last (str_split (id_text sheet2) ''/'')) = Some (Inr [])"
    by code_simp
  have h4: "GetWorksheetsFeed (example_client (Inl Gaierror) example_rows) ''KEY'' = Inl Gaierror"
    by (simp add: example_client_def)
  note thm1 = load_error_cases[where client = "example_client (Inr []) example_rows" and key = ?url
      and worksheet_name = None, unfolded example_key]
  note thm2 = load_error_cases[where client = "example_client (Inr [sheet1, sheet2]) example_rows"
      and key = ?url and entries = "[sheet1, sheet2]" and name = "''Map''",
      unfolded example_key]
  note thm3 = load_error_cases[where client = "example_client (Inr [sheet1, sheet2]) example_rows"
      and key = ?url and worksheet_name = "Some ''Notes''" and entries = "[sheet1, sheet2]"
      and worksheet = sheet2, unfolded example_key]
  note thm4 = load_error_cases[where client = "example_client (Inl Gaierror) example_rows" and key = ?url
      and worksheet_name = None, unfolded example_key]
  from h1 thm1 have c1: "load_google_spreadsheet_mapping_file (example_client (Inr []) example_rows) ?url None =
     Some (Inl (RemoteMappingFileError
       (''The Google Spreadsheet with key '' @ squote ''KEY'' @
        '' does not have any worksheets associated with it.'')))" by blast
  from h2 h2' thm2 have c2: "load_google_spreadsheet_mapping_file (example_client (Inr [sheet1, sheet2]) example_rows)
       ?url (Some ''Map'') =
     Some (Inl (RemoteMappingFileError
       (''The worksheet name '' @ squote ''Map'' @
        '' could not be found in the Google Spreadsheet with key '' @ squote ''KEY'' @ ''.'')))" by blast
  from h2 h3 h3' thm3 have c3: "load_google_spreadsheet_mapping_file (example_client (Inr [sheet1, sheet2]) example_rows)
       ?url (Some ''Notes'') =
     Some (Inl (RemoteMappingFileError
       (''Could not load mapping file header (it appears to be empty). Is your'' @
        '' Google Spreadsheet with key '' @ squote ''KEY'' @ '' empty?'')))" by blast
  from h4 thm4 have c4: "load_google_spreadsheet_mapping_file (example_client (Inl Gaierror) example_rows)
       ?url None =
     Some (Inl (RemoteMappingFileConnectionError
       (''Could not establish connection with server. Do you have an active'' @
        '' Internet connection?'')))" by blast
  from h1 c1 h2' c2 h3 h3' c3 h4 c4 show ?thesis by blast
qed

lemma duplicate_title_headers:
  "get_headers_loop duplicate_title_client
     \<lparr>cells_entry = [''#SampleID'', ''Treatment''], cells_next_link = None\<rparr> [] =
   Some (Inr [''#SampleID'', ''Treatment''])"
  by (subst get_headers_loop.simps) simp

theorem load_selects_last_matching_worksheet_witness:
  "GetWorksheetsFeed duplicate_title_client
     (extract_spreadsheet_key_from_url ''http://x/ccc?key=KEY#gid=0'') =
     Inr [sheet1, sheet2, sheet3] \<and>
   1 < length (filter (\<lambda>sheet. title_text sheet = ''Fasting_Map'') [sheet1, sheet2, sheet3]) \<and>
   find_worksheet [sheet1, sheet2, sheet3] ''Fasting_Map'' None = Some sheet3 \<and>
   last (str_split (id_text sheet3) ''/'') = ''od8'' \<and>
   load_google_spreadsheet_mapping_file duplicate_title_client
       ''http://x/ccc?key=KEY#gid=0'' (Some ''Fasting_Map'') =
     Some (Inr (''#SampleID'' @ [CHR 0x09] @ ''Treatment'' @ [CHR 0x0A] @
                ''#Example mapping file'' @ [CHR 0x0A] @
                ''PC.354'' @ [CHR 0x09] @ ''Control'' @ [CHR 0x0A] @
                ''PC.607'' @ [CHR 0x09] @ [CHR 0x0A]))"
proof -
  let ?url = "''http://x/ccc?key=KEY#gid=0''"
  have h1: "GetWorksheetsFeed duplicate_title_client (extract_spreadsheet_key_from_url ?url) =
      Inr [sheet1, sheet2, sheet3]"
    by (simp add: duplicate_title_client_def)
  have f: "filter (\<lambda>sheet. title_text sheet = ''Fasting_Map'') [sheet1, sheet2, sheet3] =
      [sheet1, sheet3]"
    by (simp add: sheet1_def sheet2_def sheet3_def)
  then have h2: "1 < length (filter (\<lambda>sheet. title_text sheet = ''Fasting_Map'')
      [sheet1, sheet2, sheet3])"
    by simp
  have w: "last (str_split (id_text sheet3) ''/'') = ''od8''" by code_simp
  have cells: "GetCellsFeed duplicate_title_client ''KEY'' ''od8'' =
      Inr \<lparr>cells_entry = [''#SampleID'', ''Treatment''], cells_next_link = None\<rparr>"
    and rows: "GetListFeed duplicate_title_client ''KEY'' ''od8'' =
      Inr \<lparr>list_entry = example_rows, list_next_link = None\<rparr>"
    by (simp_all add: duplicate_title_client_def)
  have ex: "export_rows (zip [''#SampleID'', ''Treatment'']
        (get_cleaned_headers [''#SampleID'', ''Treatment''])) example_rows False
        [[Some ''#SampleID'', Some ''Treatment'']] =
      Inr ([[Some ''#SampleID'', Some ''Treatment''], [Some ''#Example mapping file''],
            [Some ''PC.354'', Some ''Control''], [Some ''PC.607'', None]], True)"
    by (simp add: example_cleaned example_rows_def startswith_def str_lstrip_def is_space_def)
  have wr: "writerows [[Some ''#SampleID'', Some ''Treatment''], [Some ''#Example mapping file''],
            [Some ''PC.354'', Some ''Control''], [Some ''PC.607'', None]] =
      ''#SampleID'' @ [CHR 0x09] @ ''Treatment'' @ [CHR 0x0A] @
      ''#Example mapping file'' @ [CHR 0x0A] @
      ''PC.354'' @ [CHR 0x09] @ ''Control'' @ [CHR 0x0A] @
      ''PC.607'' @ [CHR 0x09] @ [CHR 0x0A]"
    by (simp add: writerows_def writerow_def csv_field_def csv_special_def csv_delimiter_def
        csv_quotechar_def csv_lineterminator_def)
  from f have sel: "last (filter (\<lambda>sheet. title_text sheet = ''Fasting_Map'')
      [sheet1, sheet2, sheet3]) = sheet3"
    by simp
  note t = load_selects_last_matching_worksheet[OF h1 h2, unfolded sel example_key w cells rows]
  from t have c: "find_worksheet [sheet1, sheet2, sheet3] ''Fasting_Map'' None = Some sheet3"
    by simp
  from t have "load_google_spreadsheet_mapping_file duplicate_title_client ?url
      (Some ''Fasting_Map'') =
     Some (Inr (writerows [[Some ''#SampleID'', Some ''Treatment''],
            [Some ''#Example mapping file''],
            [Some ''PC.354'', Some ''Control''], [Some ''PC.607'', None]]))"
    by (simp add: duplicate_title_headers ex)
  with h1 h2 c w show ?thesis unfolding wr by blast
qed

subsection \<open>Exporting the rows\<close>

lemma length_get_cleaned_headers: "length (get_cleaned_headers headers) = length headers"
  by (simp add: get_cleaned_headers_def dedup_loop_length)

lemma export_cells_comment:
  assumes "comment_row c0 row"
  shows "export_cells 0 ((h0, c0) # rest) row False line = Inr (line @ [the (row c0)], False)"
  using assms by (auto simp: comment_row_def split: option.splits)

lemma export_rows_append:
  "export_rows hs (pre @ post) found_data mapping_lines =
     (case export_rows hs pre found_data mapping_lines of
        Inl e \<Rightarrow> Inl e
      | Inr (lines, fd) \<Rightarrow> export_rows hs post fd lines)"
  by (induction pre arbitrary: found_data mapping_lines) (auto split: sum.splits)

lemma export_rows_comments:
  assumes "\<forall>r \<in> set pre. comment_row c0 r"
  shows "export_rows ((h0, c0) # rest) pre False mapping_lines =
           Inr (mapping_lines @ map (\<lambda>r. [the (r c0)]) pre, False)"
  using assms
proof (induction pre arbitrary: mapping_lines)
  case Nil
  then show ?case by simp
next
  case (Cons r pre)
  then have "comment_row c0 r" by simp
  from export_cells_comment[OF this, of h0 rest "[]"] Cons show ?case by simp
qed

lemma export_rows_lines:
  "export_rows hs rows found_data mapping_lines = Inr (lines, fd) \<Longrightarrow>
     \<exists>new. lines = mapping_lines @ new \<and> length new = length rows"
proof (induction rows arbitrary: found_data mapping_lines)
  case Nil
  then show ?case by simp
next
  case (Cons r rows)
  from Cons.prems obtain line fd' where
    c: "export_cells 0 hs r found_data [] = Inr (line, fd')"
    and r: "export_rows hs rows fd' (mapping_lines @ [line]) = Inr (lines, fd)"
    by (auto split: sum.splits)
  from Cons.IH[OF r] obtain new where "lines = (mapping_lines @ [line]) @ new"
    "length new = length rows" by blast
  then have "lines = mapping_lines @ (line # new) \<and> length (line # new) = length (r # rows)"
    by simp
  then show ?case by blast
qed

lemma zip_cleaned_headers:
  assumes "headers \<noteq> []"
  shows "zip headers (get_cleaned_headers headers) =
    (hd headers, hd (get_cleaned_headers headers)) #
      zip (tl headers) (tl (get_cleaned_headers headers))"
proof -
  from assms length_get_cleaned_headers[of headers] have "get_cleaned_headers headers \<noteq> []"
    by auto
  with assms show ?thesis
    by (cases headers; cases "get_cleaned_headers headers") simp_all
qed

lemma export_cells_found:
  "export_cells header_idx hs row True line = Inr (l, fd) \<Longrightarrow>
     fd \<and> l = line @ map (\<lambda>z. the (row (snd z))) hs \<and> (\<forall>z \<in> set hs. row (snd z) \<noteq> None)"
proof (induction hs arbitrary: header_idx line)
  case Nil
  then show ?case by simp
next
  case (Cons z hs)
  obtain h c where z: "z = (h, c)" by (cases z)
  from Cons.prems z obtain cell where cell: "row c = Some cell"
    and r: "export_cells (Suc header_idx) hs row True (line @ [cell]) = Inr (l, fd)"
    by (auto split: option.splits)
  from Cons.IH[OF r] z cell show ?case by simp
qed

lemma export_cells_not_comment:
  assumes "\<not> comment_row c0 row"
    and "export_cells 0 ((h0, c0) # rest) row False [] = Inr (l, fd)"
  shows fd
proof -
  from assms(2) obtain cell where cell: "row c0 = Some cell" by (auto split: option.splits)
  with assms(2) obtain s where s: "cell = Some s" by (auto split: option.splits)
  with assms(1) cell have "\<not> startswith (str_lstrip s) ''#''" by (simp add: comment_row_def)
  with assms(2) cell s have "export_cells (Suc 0) rest row True [cell] = Inr (l, fd)" by simp
  from export_cells_found[OF this] show fd by simp
qed

lemma export_rows_found:
  assumes "export_rows ((h0, c0) # rest) pre fd0 mapping_lines = Inr (lines, fd)"
    and "fd0 \<or> (\<exists>r \<in> set pre. \<not> comment_row c0 r)"
  shows fd
  using assms
proof (induction pre arbitrary: fd0 mapping_lines)
  case Nil
  then show ?case by simp
next
  case (Cons r pre)
  let ?hs = "(h0, c0) # rest"
  from Cons.prems(1) obtain line fd1 where
    c: "export_cells 0 ?hs r fd0 [] = Inr (line, fd1)"
    and rs: "export_rows ?hs pre fd1 (mapping_lines @ [line]) = Inr (lines, fd)"
    by (auto split: sum.splits)
  have "fd1 \<or> (\<exists>r \<in> set pre. \<not> comment_row c0 r)"
  proof (cases fd0)
    case True
    with c have "export_cells 0 ?hs r True [] = Inr (line, fd1)" by (simp only:)
    from export_cells_found[OF this] show ?thesis by blast
  next
    case False
    show ?thesis
    proof (cases "comment_row c0 r")
      case True
      with False Cons.prems(2) show ?thesis by simp
    next
      case nc: False
      from False have "fd0 = False" by simp
      with c have "export_cells 0 ((h0, c0) # rest) r False [] = Inr (line, fd1)"
        by (simp only:)
      from export_cells_not_comment[OF nc this] show ?thesis by blast
    qed
  qed
  from Cons.IH[OF rs this] show ?case .
qed

text \<open>
  C2, as amended. A row whose first cell, after stripping leading whitespace, starts with
  \<open>#\<close> is exported as that first cell only when every row before it in the feed is such
  a comment row too. \<open>found_data\<close> is carried from row to row: once a row that is not a
  comment row has been exported, every later row is exported with a cell for each header,
  also when its first cell starts with \<open>#\<close>.
\<close>

theorem export_comment_detection:
  assumes "headers \<noteq> []"
    and "GetListFeed client spreadsheet_key worksheet_id = Inr feed"
    and "list_entry feed = pre @ row # post"
    and "export_mapping_file client spreadsheet_key worksheet_id headers = Inr table"
  shows "((\<forall>r \<in> set pre. comment_row (hd (get_cleaned_headers headers)) r) \<and>
          row (hd (get_cleaned_headers headers)) = Some (Some text) \<and>
          startswith (str_lstrip text) ''#'' \<longrightarrow>
            table ! Suc (length pre) = [Some text]) \<and>
         ((\<exists>r \<in> set pre. \<not> comment_row (hd (get_cleaned_headers headers)) r) \<longrightarrow>
            (\<forall>c \<in> set (get_cleaned_headers headers). row c \<noteq> None) \<and>
            table ! Suc (length pre) = map (\<lambda>c. the (row c)) (get_cleaned_headers headers))"
proof (intro conjI impI)
  let ?c0 = "hd (get_cleaned_headers headers)"
  let ?cl = "get_cleaned_headers headers"
  let ?hs = "zip headers ?cl"
  note hs = zip_cleaned_headers[OF assms(1)]
  from assms(2,3) have "export_mapping_file client spreadsheet_key worksheet_id headers =
      (case export_rows ?hs (pre @ row # post) False [map Some headers] of
         Inl e \<Rightarrow> Inl e
       | Inr (mapping_lines, found_data) \<Rightarrow>
           (case list_next_link feed of
              None \<Rightarrow> Inr mapping_lines
            | Some href \<Rightarrow> Inl (NameError ''SpreadsheetsListFeedFromString'')))"
    by (simp add: export_mapping_file_def Let_def)
  with assms(4) obtain fdN where
    all: "export_rows ?hs (pre @ row # post) False [map Some headers] = Inr (table, fdN)"
    by (cases "export_rows ?hs (pre @ row # post) False [map Some headers]")
      (auto split: option.splits)
  {
    assume a: "(\<forall>r \<in> set pre. comment_row ?c0 r) \<and> row ?c0 = Some (Some text) \<and>
          startswith (str_lstrip text) ''#''"
    let ?L = "[map Some headers] @ map (\<lambda>r. [the (r ?c0)]) pre"
    from a have cr: "comment_row ?c0 row" by (simp add: comment_row_def)
    from a have allc: "\<forall>r \<in> set pre. comment_row ?c0 r" by simp
    have pre: "export_rows ?hs pre False [map Some headers] = Inr (?L, False)"
      unfolding hs by (rule export_rows_comments[OF allc])
    have cells: "export_cells 0 ?hs row False [] = Inr ([Some text], False)"
      unfolding hs using export_cells_comment[OF cr] a by simp
    have "export_rows ?hs (pre @ row # post) False [map Some headers] =
        export_rows ?hs post False (?L @ [[Some text]])"
      by (simp only: export_rows_append pre) (simp add: cells)
    with all have "export_rows ?hs post False (?L @ [[Some text]]) = Inr (table, fdN)" by simp
    from export_rows_lines[OF this] obtain new where "table = (?L @ [[Some text]]) @ new"
      by blast
    then have "table = ?L @ [Some text] # new" by simp
    moreover have "length ?L = Suc (length pre)" by simp
    ultimately show "table ! Suc (length pre) = [Some text]" by (metis nth_append_length)
  }
  {
    assume a: "\<exists>r \<in> set pre. \<not> comment_row ?c0 r"
    have app: "export_rows ?hs (pre @ row # post) False [map Some headers] =
      (case export_rows ?hs pre False [map Some headers] of
         Inl e \<Rightarrow> Inl e
       | Inr (lines, fd) \<Rightarrow> export_rows ?hs (row # post) fd lines)"
      by (rule export_rows_append)
    from all app obtain L fd1 where
      p: "export_rows ?hs pre False [map Some headers] = Inr (L, fd1)"
      and q: "export_rows ?hs (row # post) fd1 L = Inr (table, fdN)"
      by (cases "export_rows ?hs pre False [map Some headers]") auto
    from p[unfolded hs] a have fd1 by (rule export_rows_found[OF _ disjI2])
    with q have q': "export_rows ?hs (row # post) True L = Inr (table, fdN)" by simp
    then obtain line fd2 where
      c: "export_cells 0 ?hs row True [] = Inr (line, fd2)"
      and t: "export_rows ?hs post fd2 (L @ [line]) = Inr (table, fdN)"
      by (cases "export_cells 0 ?hs row True []") auto
    from export_cells_found[OF c]
    have line: "line = map (\<lambda>z. the (row (snd z))) ?hs"
      and some: "\<forall>z \<in> set ?hs. row (snd z) \<noteq> None" by simp_all
    have len: "length ?cl = length headers" by (rule length_get_cleaned_headers)
    then have snd: "map snd ?hs = ?cl" by simp
    have "map (\<lambda>z. the (row (snd z))) ?hs = map (\<lambda>c. the (row c)) (map snd ?hs)"
      by (simp add: comp_def)
    with line snd have line': "line = map (\<lambda>c. the (row c)) ?cl" by simp
    from some have "\<forall>c \<in> set (map snd ?hs). row c \<noteq> None" by simp
    with snd show "\<forall>c \<in> set ?cl. row c \<noteq> None" by simp
    from export_rows_lines[OF p] obtain new1 where
      L: "L = [map Some headers] @ new1" "length new1 = length pre" by blast
    from export_rows_lines[OF t] obtain new2 where "table = (L @ [line]) @ new2" by blast
    then have "table = L @ line # new2" by simp
    moreover from L have "length L = Suc (length pre)" by simp
    ultimately have "table ! Suc (length pre) = line" by (metis nth_append_length)
    with line' show "table ! Suc (length pre) = map (\<lambda>c. the (row c)) ?cl" by simp
  }
qed


lemma export_cells_missing:
  assumes "\<forall>z \<in> set before. row (snd z) \<noteq> None"
    and "row cleaned_header = None"
    and "found_data \<or> 0 < header_idx \<or> before = [] \<or>
         (\<exists>text. row (snd (hd before)) = Some (Some text) \<and> \<not> startswith (str_lstrip text) ''#'')"
  shows "export_cells header_idx (before @ (header, cleaned_header) # rest) row found_data line =
           Inl (header_error header)"
  using assms
proof (induction before arbitrary: header_idx found_data line)
  case Nil
  then show ?case by simp
next
  case (Cons z before)
  obtain h c where z: "z = (h, c)" by (cases z)
  from Cons.prems(1) z obtain cell where cell: "row c = Some cell" by auto
  have step: "export_cells (Suc header_idx) (before @ (header, cleaned_header) # rest) row True
      (line @ [cell]) = Inl (header_error header)"
    using Cons.prems by (intro Cons.IH) simp_all
  show ?case
  proof (cases "\<not> found_data \<and> header_idx = 0")
    case True
    with Cons.prems(3) z cell obtain s where "cell = Some s"
      "\<not> startswith (str_lstrip s) ''#''" by auto
    with True z cell step show ?thesis by simp
  next
    case False
    with z cell step show ?thesis by auto
  qed
qed

text \<open>
  C6, as amended. Let the rows before a row be exported without error, and let \<open>i\<close> be
  the first header position for which the row has no cell, position \<open>i\<close> being reached:
  \<open>i = 0\<close>, or \<open>found_data\<close> is already set, or the first cell of the row holds a
  text that, after stripping leading whitespace, does not start with \<open>#\<close>. Then the
  export raises \<open>RemoteMappingFileError\<close> with a message that names \<open>headers[i]\<close>,
  and returns no mapping table.
\<close>

theorem export_first_missing_cell_error:
  assumes "GetListFeed client spreadsheet_key worksheet_id = Inr feed"
    and "list_entry feed = pre @ row # post"
    and "export_rows (zip headers (get_cleaned_headers headers)) pre False [map Some headers] =
           Inr (lines, found_data)"
    and "i < length headers"
    and "\<forall>j<i. row (get_cleaned_headers headers ! j) \<noteq> None"
    and "row (get_cleaned_headers headers ! i) = None"
    and "0 < i \<longrightarrow> found_data \<or>
           (\<exists>text. row (get_cleaned_headers headers ! 0) = Some (Some text) \<and>
              \<not> startswith (str_lstrip text) ''#'')"
  shows "export_mapping_file client spreadsheet_key worksheet_id headers =
           Inl (header_error (headers ! i)) \<and>
         (\<exists>a b. header_error (headers ! i) = RemoteMappingFileError (a @ headers ! i @ b))"
proof
  let ?cl = "get_cleaned_headers headers"
  let ?hs = "zip headers ?cl"
  have len: "length ?cl = length headers" by (rule length_get_cleaned_headers)
  with assms(4) have i: "i < length ?hs" by simp
  then have nth: "?hs ! i = (headers ! i, ?cl ! i)" by simp
  from i have split: "?hs = take i ?hs @ (headers ! i, ?cl ! i) # drop (Suc i) ?hs"
    by (metis id_take_nth_drop nth)
  have before: "\<forall>z \<in> set (take i ?hs). row (snd z) \<noteq> None"
  proof
    fix z assume "z \<in> set (take i ?hs)"
    then obtain j where j: "j < length (take i ?hs)" "z = take i ?hs ! j"
      by (auto simp: in_set_conv_nth)
    with i have "j < i" "z = (headers ! j, ?cl ! j)" by simp_all
    with assms(5) show "row (snd z) \<noteq> None" by simp
  qed
  have first: "found_data \<or> 0 < (0::nat) \<or> take i ?hs = [] \<or>
      (\<exists>text. row (snd (hd (take i ?hs))) = Some (Some text) \<and>
         \<not> startswith (str_lstrip text) ''#'')"
  proof (cases "i = 0")
    case True
    then show ?thesis by simp
  next
    case False
    with i have "hd (take i ?hs) = ?hs ! 0" by (cases ?hs) (simp_all add: take_Suc_conv_app_nth hd_conv_nth)
    moreover from assms(4) len False have "?hs ! 0 = (headers ! 0, ?cl ! 0)"
      by (intro nth_zip) auto
    ultimately show ?thesis using assms(7) False by auto
  qed
  have "export_cells 0 (take i ?hs @ (headers ! i, ?cl ! i) # drop (Suc i) ?hs) row found_data [] =
      Inl (header_error (headers ! i))"
    by (rule export_cells_missing[OF before assms(6) first])
  with split have cells: "export_cells 0 ?hs row found_data [] = Inl (header_error (headers ! i))"
    by simp
  have "export_rows ?hs (pre @ row # post) False [map Some headers] =
      Inl (header_error (headers ! i))"
    by (simp only: export_rows_append assms(3)) (simp add: cells)
  with assms(1,2) show "export_mapping_file client spreadsheet_key worksheet_id headers =
           Inl (header_error (headers ! i))"
    by (simp add: export_mapping_file_def Let_def)
  have "header_error (headers ! i) = RemoteMappingFileError
      ((''Could not map header '' @ [CHR 0x27]) @ headers ! i @ ([CHR 0x27] @
       '' to Google Spreadsheet's internal representation of the header. We suggest'' @
       '' changing the name of the header in your Google Spreadsheet to be alphanumeric'' @
       '' if possible, as this will likely solve the issue.''))"
    by (simp add: header_error_def squote_def)
  then show "\<exists>a b. header_error (headers ! i) = RemoteMappingFileError (a @ headers ! i @ b)"
    by blast
qed


text \<open>
  The claim as stated fails: the third row below starts with \<open>#\<close> after whitespace,
  follows a data row, and is exported with both its cells.
\<close>

theorem export_comment_after_data_counterexample:
  "comment_row (hd (get_cleaned_headers [''#SampleID'', ''Treatment''])) (late_comment_rows ! 2) \<and>
   export_mapping_file (example_client (Inr []) late_comment_rows) ''KEY'' ''od6''
       [''#SampleID'', ''Treatment''] =
     Inr [[Some ''#SampleID'', Some ''Treatment''],
          [Some ''#Example mapping file''],
          [Some ''PC.354'', Some ''Control''],
          [Some '' #late comment'', Some ''Fast'']]"
  by (simp add: example_cleaned comment_row_def late_comment_rows_def export_mapping_file_def
      example_client_def startswith_def str_lstrip_def is_space_def)

theorem export_comment_detection_witness:
  "[''#SampleID'', ''Treatment''] \<noteq> [] \<and>
   GetListFeed (example_client (Inr []) two_comment_rows) ''KEY'' ''od6'' =
     Inr \<lparr>list_entry = two_comment_rows, list_next_link = None\<rparr> \<and>
   two_comment_rows = [two_comment_rows ! 0] @ two_comment_rows ! 1 # [two_comment_rows ! 2] \<and>
   export_mapping_file (example_client (Inr []) two_comment_rows) ''KEY'' ''od6''
       [''#SampleID'', ''Treatment''] =
     Inr [[Some ''#SampleID'', Some ''Treatment''],
          [Some ''#Example mapping file''],
          [Some '' #second comment''],
          [Some ''PC.354'', Some ''Control'']] \<and>
   comment_row (hd (get_cleaned_headers [''#SampleID'', ''Treatment''])) (two_comment_rows ! 0) \<and>
   (two_comment_rows ! 1) (hd (get_cleaned_headers [''#SampleID'', ''Treatment''])) =
     Some (Some '' #second comment'') \<and>
   startswith (str_lstrip '' #second comment'') ''#'' \<and>
   [[Some ''#SampleID'', Some ''Treatment''],
    [Some ''#Example mapping file''],
    [Some '' #second comment''],
    [Some ''PC.354'', Some ''Control'']] ! Suc (length [two_comment_rows ! 0]) =
     [Some '' #second comment''] \<and>
   GetListFeed (example_client (Inr []) late_comment_rows) ''KEY'' ''od6'' =
     Inr \<lparr>list_entry = late_comment_rows, list_next_link = None\<rparr> \<and>
   late_comment_rows =
     [late_comment_rows ! 0, late_comment_rows ! 1] @ late_comment_rows ! 2 # [] \<and>
   export_mapping_file (example_client (Inr []) late_comment_rows) ''KEY'' ''od6''
       [''#SampleID'', ''Treatment''] =
     Inr [[Some ''#SampleID'', Some ''Treatment''],
          [Some ''#Example mapping file''],
          [Some ''PC.354'', Some ''Control''],
          [Some '' #late comment'', Some ''Fast'']] \<and>
   \<not> comment_row (hd (get_cleaned_headers [''#SampleID'', ''Treatment'']))
     (late_comment_rows ! 1) \<and>
   comment_row (hd (get_cleaned_headers [''#SampleID'', ''Treatment''])) (late_comment_rows ! 2) \<and>
   [[Some ''#SampleID'', Some ''Treatment''],
    [Some ''#Example mapping file''],
    [Some ''PC.354'', Some ''Control''],
    [Some '' #late comment'', Some ''Fast'']] !
     Suc (length [late_comment_rows ! 0, late_comment_rows ! 1]) =
     map (\<lambda>c. the ((late_comment_rows ! 2) c))
       (get_cleaned_headers [''#SampleID'', ''Treatment''])"
proof -
  let ?hs = "[''#SampleID'', ''Treatment'']"
  let ?c0 = "hd (get_cleaned_headers ?hs)"
  let ?T1 = "[[Some ''#SampleID'', Some ''Treatment''], [Some ''#Example mapping file''],
    [Some '' #second comment''], [Some ''PC.354'', Some ''Control'']]"
  let ?T2 = "[[Some ''#SampleID'', Some ''Treatment''], [Some ''#Example mapping file''],
    [Some ''PC.354'', Some ''Control''], [Some '' #late comment'', Some ''Fast'']]"
  note ev = example_cleaned comment_row_def startswith_def str_lstrip_def is_space_def
  have h1: "?hs \<noteq> []" by simp
  have a2: "GetListFeed (example_client (Inr []) two_comment_rows) ''KEY'' ''od6'' =
     Inr \<lparr>list_entry = two_comment_rows, list_next_link = None\<rparr>"
    by (simp add: example_client_def)
  have a3: "list_entry \<lparr>list_entry = two_comment_rows, list_next_link = None\<rparr> =
      [two_comment_rows ! 0] @ two_comment_rows ! 1 # [two_comment_rows ! 2]"
    by (simp add: two_comment_rows_def)
  have a4: "export_mapping_file (example_client (Inr []) two_comment_rows) ''KEY'' ''od6'' ?hs =
     Inr ?T1"
    by (simp add: ev two_comment_rows_def export_mapping_file_def example_client_def)
  have a5: "\<forall>r \<in> set [two_comment_rows ! 0]. comment_row ?c0 r"
    by (simp add: ev two_comment_rows_def)
  have a6: "(two_comment_rows ! 1) ?c0 = Some (Some '' #second comment'')"
    by (simp add: example_cleaned two_comment_rows_def)
  have a7: "startswith (str_lstrip '' #second comment'') ''#''"
    by (simp add: startswith_def str_lstrip_def is_space_def)
  from export_comment_detection[OF h1 a2 a3 a4, of "'' #second comment''"] a5 a6 a7
  have c1: "?T1 ! Suc (length [two_comment_rows ! 0]) = [Some '' #second comment'']"
    by blast
  have b2: "GetListFeed (example_client (Inr []) late_comment_rows) ''KEY'' ''od6'' =
     Inr \<lparr>list_entry = late_comment_rows, list_next_link = None\<rparr>"
    by (simp add: example_client_def)
  have b3: "list_entry \<lparr>list_entry = late_comment_rows, list_next_link = None\<rparr> =
      [late_comment_rows ! 0, late_comment_rows ! 1] @ late_comment_rows ! 2 # []"
    by (simp add: late_comment_rows_def)
  have b4: "export_mapping_file (example_client (Inr []) late_comment_rows) ''KEY'' ''od6'' ?hs =
     Inr ?T2"
    by (simp add: ev late_comment_rows_def export_mapping_file_def example_client_def)
  have b5: "\<not> comment_row ?c0 (late_comment_rows ! 1)"
    by (simp add: ev late_comment_rows_def)
  then have b5': "\<exists>r \<in> set [late_comment_rows ! 0, late_comment_rows ! 1]. \<not> comment_row ?c0 r"
    by simp
  have b6: "comment_row ?c0 (late_comment_rows ! 2)"
    by (simp add: ev late_comment_rows_def)
  from export_comment_detection[OF h1 b2 b3 b4] b5'
  have c2: "?T2 ! Suc (length [late_comment_rows ! 0, late_comment_rows ! 1]) =
     map (\<lambda>c. the ((late_comment_rows ! 2) c)) (get_cleaned_headers ?hs)"
    by blast
  from a5 have a5': "comment_row ?c0 (two_comment_rows ! 0)" by simp
  from a3 b3 have a3': "two_comment_rows =
      [two_comment_rows ! 0] @ two_comment_rows ! 1 # [two_comment_rows ! 2]"
    and b3': "late_comment_rows =
      [late_comment_rows ! 0, late_comment_rows ! 1] @ late_comment_rows ! 2 # []"
    by simp_all
  from h1 a2 a3' a4 a5' a6 a7 c1 b2 b3' b4 b5 b6 c2 show ?thesis by blast
qed

text \<open>
  The claim as stated fails: the row below has no cell under the second cleaned header,
  but it is a comment row, the loop ends after its first cell, and the export succeeds.
\<close>

theorem export_comment_row_skips_lookup_counterexample:
  "(short_comment_rows ! 0) (get_cleaned_headers [''#SampleID'', ''Treatment''] ! 1) = None \<and>
   export_mapping_file (example_client (Inr []) short_comment_rows) ''KEY'' ''od6''
       [''#SampleID'', ''Treatment''] =
     Inr [[Some ''#SampleID'', Some ''Treatment''], [Some ''#note'']]"
  by (simp add: example_cleaned short_comment_rows_def export_mapping_file_def
      example_client_def startswith_def str_lstrip_def is_space_def)

theorem export_first_missing_cell_error_witness:
  "GetListFeed (example_client (Inr []) missing_cell_rows) ''KEY'' ''od6'' =
     Inr \<lparr>list_entry = missing_cell_rows, list_next_link = None\<rparr> \<and>
   missing_cell_rows = [missing_cell_rows ! 0] @ missing_cell_rows ! 1 # [] \<and>
   export_rows (zip [''#SampleID'', ''Treatment''] (get_cleaned_headers [''#SampleID'', ''Treatment'']))
       [missing_cell_rows ! 0] False [map Some [''#SampleID'', ''Treatment'']] =
     Inr ([[Some ''#SampleID'', Some ''Treatment''], [Some ''PC.354'', Some ''Control'']], True) \<and>
   (1::nat) < length [''#SampleID'', ''Treatment''] \<and>
   (missing_cell_rows ! 1) (get_cleaned_headers [''#SampleID'', ''Treatment''] ! 0) \<noteq> None \<and>
   (missing_cell_rows ! 1) (get_cleaned_headers [''#SampleID'', ''Treatment''] ! 1) = None \<and>
   export_mapping_file (example_client (Inr []) missing_cell_rows) ''KEY'' ''od6''
       [''#SampleID'', ''Treatment''] = Inl (header_error ''Treatment'')"
proof -
  let ?hs = "[''#SampleID'', ''Treatment'']"
  have h1: "GetListFeed (example_client (Inr []) missing_cell_rows) ''KEY'' ''od6'' =
     Inr \<lparr>list_entry = missing_cell_rows, list_next_link = None\<rparr>"
    by (simp add: example_client_def)
  have h2: "list_entry \<lparr>list_entry = missing_cell_rows, list_next_link = None\<rparr> =
      [missing_cell_rows ! 0] @ missing_cell_rows ! 1 # []"
    by (simp add: missing_cell_rows_def)
  have h3: "export_rows (zip ?hs (get_cleaned_headers ?hs)) [missing_cell_rows ! 0] False
       [map Some ?hs] =
     Inr ([[Some ''#SampleID'', Some ''Treatment''], [Some ''PC.354'', Some ''Control'']], True)"
    by (simp add: example_cleaned missing_cell_rows_def startswith_def str_lstrip_def is_space_def)
  have h4: "(1::nat) < length ?hs" by simp
  have h5: "\<forall>j<1. (missing_cell_rows ! 1) (get_cleaned_headers ?hs ! j) \<noteq> None"
    by (simp add: example_cleaned missing_cell_rows_def)
  have h6: "(missing_cell_rows ! 1) (get_cleaned_headers ?hs ! 1) = None"
    by (simp add: example_cleaned missing_cell_rows_def)
  have h7: "0 < (1::nat) \<longrightarrow> True \<or>
           (\<exists>text. (missing_cell_rows ! 1) (get_cleaned_headers ?hs ! 0) = Some (Some text) \<and>
              \<not> startswith (str_lstrip text) ''#'')" by simp
  from export_first_missing_cell_error[OF h1 h2 h3 h4 h5 h6 h7] h1 h2 h3 h4 h5 h6 show ?thesis by simp
qed

subsection \<open>Writing the lines\<close>

lemma concat_double_none:
  "q \<notin> set s \<Longrightarrow> concat (map (\<lambda>c. if c = q then [c, c] else [c]) s) = s"
  by (induction s) auto

lemma csv_field_plain:
  assumes "plain_cell field" and "\<not> (cell_text field = [] \<and> quote_empty)"
  shows "csv_field quote_empty field = cell_text field"
proof -
  let ?s = "cell_text field"
  from assms(1) have no: "CHR 0x09 \<notin> set ?s" "CHR 0x22 \<notin> set ?s" "CHR 0x0A \<notin> set ?s"
    "CHR 0x00 \<notin> set ?s"
    by (auto simp: plain_cell_def list_all_iff)
  from no(4) have t: "takeWhile (\<lambda>c. c \<noteq> CHR 0x00) ?s = ?s" by (induction ?s) auto
  have fld: "(case field of None \<Rightarrow> [] | Some s \<Rightarrow> takeWhile (\<lambda>c. c \<noteq> CHR 0x00) s) = ?s"
    using t by (cases field) (simp_all add: cell_text_def)
  from no have sp: "\<not> list_ex csv_special ?s"
    by (auto simp: list_ex_iff csv_special_def csv_delimiter_def csv_quotechar_def
        csv_lineterminator_def)
  from no(2) have body: "concat (map (\<lambda>c. if c = csv_quotechar then [c, c] else [c]) ?s) = ?s"
    unfolding csv_quotechar_def by (rule concat_double_none)
  from assms(2) sp body show ?thesis
    unfolding csv_field_def fld Let_def by auto
qed

lemma writerow_plain:
  assumes "list_all plain_cell row" and "\<not> lone_blank row"
  shows "writerow row = join_fields (map cell_text row) @ [CHR 0x0A]"
proof -
  have "map (csv_field (length row = 1)) row = map cell_text row"
  proof (rule map_cong[OF refl])
    fix f assume f: "f \<in> set row"
    with assms(1) have p: "plain_cell f" by (simp add: list_all_iff)
    have "\<not> (cell_text f = [] \<and> length row = 1)"
    proof
      assume a: "cell_text f = [] \<and> length row = 1"
      then obtain x where "row = [x]" by (cases row) auto
      with f a assms(2) show False by (simp add: lone_blank_def)
    qed
    with p show "csv_field (length row = 1) f = cell_text f" by (rule csv_field_plain)
  qed
  then show ?thesis by (simp only: writerow_def csv_lineterminator_def)
qed

lemma writerows_plain:
  assumes "list_all (list_all plain_cell) table" and "\<not> list_ex lone_blank table"
  shows "writerows table = tsv_lines table"
  using assms
  by (induction table) (simp_all add: writerows_def tsv_lines_def writerow_plain)

lemma join_fields_set:
  "set (join_fields fs) \<subseteq> insert csv_delimiter (\<Union> (set ` set fs))"
  by (induction fs rule: join_fields.induct) auto

lemma plain_line_no_newline:
  assumes "list_all plain_cell row"
  shows "CHR 0x0A \<notin> set (join_fields (map cell_text row))"
proof
  assume "CHR 0x0A \<in> set (join_fields (map cell_text row))"
  with join_fields_set[of "map cell_text row"]
  have "CHR 0x0A = csv_delimiter \<or> (\<exists>f \<in> set row. CHR 0x0A \<in> set (cell_text f))" by auto
  with assms show False
    by (auto simp: csv_delimiter_def plain_cell_def list_all_iff)
qed

lemma tsv_lines_newlines:
  assumes "list_all (list_all plain_cell) table"
  shows "length (filter (\<lambda>c. c = CHR 0x0A) (tsv_lines table)) = length table"
  using assms
proof (induction table)
  case Nil
  then show ?case by (simp add: tsv_lines_def)
next
  case (Cons row table)
  then have "CHR 0x0A \<notin> set (join_fields (map cell_text row))"
    by (simp add: plain_line_no_newline)
  then have "filter (\<lambda>c. c = CHR 0x0A) (join_fields (map cell_text row)) = []"
    by (auto simp: filter_empty_conv)
  with Cons show ?case by (simp add: tsv_lines_def)
qed

lemma str_split_char_none: "c \<notin> set s \<Longrightarrow> str_split s [c] = [s]"
  by (subst str_split.simps) (simp add: str_partition_char)

lemma str_split_char_cut:
  assumes "c \<notin> set l"
  shows "str_split (l @ c # rest) [c] = l # str_split rest [c]"
proof -
  from assms have "takeWhile (\<lambda>x. x \<noteq> c) (l @ c # rest) = l"
    by (induction l) auto
  moreover from assms have "dropWhile (\<lambda>x. x \<noteq> c) (l @ c # rest) = c # rest"
    by (induction l) auto
  ultimately show ?thesis
    by (subst str_split.simps) (simp add: str_partition_char)
qed

lemma str_split_lines:
  assumes "\<forall>l \<in> set ls. c \<notin> set l"
  shows "str_split (concat (map (\<lambda>l. l @ [c]) ls)) [c] = ls @ [[]]"
  using assms
proof (induction ls)
  case Nil
  show ?case by (simp add: str_split_char_none)
next
  case (Cons l ls)
  then have "c \<notin> set l" by simp
  from str_split_char_cut[OF this, of "concat (map (\<lambda>l. l @ [c]) ls)"] Cons show ?case
    by simp
qed

lemma str_split_join_fields:
  assumes "fs \<noteq> []" and "\<forall>f \<in> set fs. csv_delimiter \<notin> set f"
  shows "str_split (join_fields fs) [csv_delimiter] = fs"
  using assms
proof (induction fs rule: join_fields.induct)
  case 1
  then show ?case by simp
next
  case (2 f)
  then show ?case by (simp add: str_split_char_none)
next
  case (3 f g fs)
  then have "csv_delimiter \<notin> set f" by simp
  from str_split_char_cut[OF this, of "join_fields (g # fs)"] 3 show ?case by simp
qed

lemma tsv_resplit_lines:
  assumes "list_all (list_all plain_cell) table" and "list_all (\<lambda>row. row \<noteq> []) table"
  shows "tsv_resplit (tsv_lines table) = map (map cell_text) table"
proof -
  let ?ls = "map (\<lambda>row. join_fields (map cell_text row)) table"
  have lines: "tsv_lines table = concat (map (\<lambda>l. l @ [CHR 0x0A]) ?ls)"
    by (simp add: tsv_lines_def comp_def)
  have "\<forall>l \<in> set ?ls. CHR 0x0A \<notin> set l"
    using assms(1) by (auto simp: list_all_iff plain_line_no_newline)
  then have "str_split (tsv_lines table) [CHR 0x0A] = ?ls @ [[]]"
    unfolding lines by (rule str_split_lines)
  then have "tsv_resplit (tsv_lines table) = map (\<lambda>line. str_split line [CHR 0x09]) ?ls"
    by (simp add: tsv_resplit_def)
  also have "\<dots> = map (map cell_text) table"
  proof -
    have "\<And>row. row \<in> set table \<Longrightarrow>
        str_split (join_fields (map cell_text row)) [CHR 0x09] = map cell_text row"
    proof -
      fix row assume r: "row \<in> set table"
      with assms have "map cell_text row \<noteq> []"
        and "\<forall>f \<in> set (map cell_text row). csv_delimiter \<notin> set f"
        by (auto simp: list_all_iff plain_cell_def csv_delimiter_def)
      from str_split_join_fields[OF this]
      show "str_split (join_fields (map cell_text row)) [CHR 0x09] = map cell_text row"
        by (simp add: csv_delimiter_def)
    qed
    then show ?thesis by (simp add: comp_def)
  qed
  finally show ?thesis .
qed

lemma join_fields_tab_joined: "join_fields fs = tab_joined fs"
  by (induction fs rule: join_fields.induct) (simp_all add: tab_joined_def csv_delimiter_def)

lemma set_csv_field:
  "set (csv_field quote_empty field) \<subseteq> insert csv_quotechar (set (cell_text field))"
proof -
  let ?t = "case field of None \<Rightarrow> [] | Some s \<Rightarrow> takeWhile (\<lambda>c. c \<noteq> CHR 0x00) s"
  have t: "set ?t \<subseteq> set (cell_text field)"
    by (cases field) (auto simp: cell_text_def dest: set_takeWhileD)
  have "set (concat (map (\<lambda>c. if c = csv_quotechar then [c, c] else [c]) ?t)) \<subseteq> set ?t"
    by auto
  with t show ?thesis
    unfolding csv_field_def Let_def by (auto split: if_splits)
qed

lemma writerow_no_newline:
  assumes "list_all (\<lambda>cell. CHR 0x0A \<notin> set (cell_text cell)) row"
  shows "CHR 0x0A \<notin> set (join_fields (map (csv_field quote_empty) row))"
proof
  assume "CHR 0x0A \<in> set (join_fields (map (csv_field quote_empty) row))"
  with join_fields_set[of "map (csv_field quote_empty) row"]
  have "CHR 0x0A = csv_delimiter \<or>
      (\<exists>cell \<in> set row. CHR 0x0A \<in> set (csv_field quote_empty cell))" by auto
  then obtain cell where c: "cell \<in> set row" "CHR 0x0A \<in> set (csv_field quote_empty cell)"
    by (auto simp: csv_delimiter_def)
  with set_csv_field[of quote_empty cell]
  have "CHR 0x0A = csv_quotechar \<or> CHR 0x0A \<in> set (cell_text cell)" by auto
  with c(1) assms show False by (auto simp: csv_quotechar_def list_all_iff)
qed

lemma writerows_newlines:
  assumes "list_all (list_all (\<lambda>cell. CHR 0x0A \<notin> set (cell_text cell))) table"
  shows "length (filter (\<lambda>c. c = CHR 0x0A) (writerows table)) = length table"
  using assms
proof (induction table)
  case Nil
  then show ?case by (simp add: writerows_def)
next
  case (Cons row table)
  then have "CHR 0x0A \<notin> set (join_fields (map (csv_field (length row = 1)) row))"
    by (simp add: writerow_no_newline)
  then have "filter (\<lambda>c. c = CHR 0x0A) (join_fields (map (csv_field (length row = 1)) row)) = []"
    by (auto simp: filter_empty_conv)
  with Cons show ?case by (simp add: writerows_def writerow_def csv_lineterminator_def)
qed

text \<open>
  C3, as amended. Every row is rendered as its written fields joined by tabs and ended by
  one newline, one such record per row including the header row and nothing after the
  last one; when no cell holds a newline the output has exactly one line per row. The
  writer does quote: cells are written as they are when no cell holds a tab, a double
  quote, a newline or a NUL byte and no row is a single blank cell, whereas a cell that
  holds a tab and no NUL byte is written between double quotes, with every double quote
  in it doubled.
\<close>

theorem writerows_plain_and_quoted:
  "writerows table =
     concat (map (\<lambda>row. tab_joined (map (csv_field (length row = 1)) row) @ [CHR 0x0A]) table) \<and>
   (list_all (list_all (\<lambda>cell. CHR 0x0A \<notin> set (cell_text cell))) table \<longrightarrow>
      length (filter (\<lambda>c. c = CHR 0x0A) (writerows table)) = length table) \<and>
   (list_all (list_all plain_cell) table \<and> \<not> list_ex lone_blank table \<longrightarrow>
      writerows table = concat (map (\<lambda>row. tab_joined (map cell_text row) @ [CHR 0x0A]) table) \<and>
      writerows table = tsv_lines table) \<and>
   (CHR 0x09 \<in> set s \<and> CHR 0x00 \<notin> set s \<longrightarrow>
      csv_field quote_empty (Some s) =
        [CHR 0x22] @ concat (map (\<lambda>c. if c = CHR 0x22 then [c, c] else [c]) s) @ [CHR 0x22])"
proof (intro conjI impI)
  show "writerows table =
     concat (map (\<lambda>row. tab_joined (map (csv_field (length row = 1)) row) @ [CHR 0x0A]) table)"
  proof -
    have "writerow =
        (\<lambda>row. tab_joined (map (csv_field (length row = 1)) row) @ [CHR 0x0A])"
      by (rule ext) (simp add: writerow_def csv_lineterminator_def join_fields_tab_joined)
    then show ?thesis by (simp only: writerows_def)
  qed
next
  assume "list_all (list_all (\<lambda>cell. CHR 0x0A \<notin> set (cell_text cell))) table"
  then show "length (filter (\<lambda>c. c = CHR 0x0A) (writerows table)) = length table"
    by (rule writerows_newlines)
next
  assume a: "list_all (list_all plain_cell) table \<and> \<not> list_ex lone_blank table"
  then show w: "writerows table = tsv_lines table" by (simp add: writerows_plain)
  show "writerows table = concat (map (\<lambda>row. tab_joined (map cell_text row) @ [CHR 0x0A]) table)"
    unfolding w tsv_lines_def join_fields_tab_joined by (rule refl)
next
  assume a: "CHR 0x09 \<in> set s \<and> CHR 0x00 \<notin> set s"
  then have tw: "takeWhile (\<lambda>c. c \<noteq> CHR 0x00) s = s" by (induction s) auto
  from a have "list_ex csv_special s"
    by (auto simp: list_ex_iff csv_special_def csv_delimiter_def)
  then show "csv_field quote_empty (Some s) =
        [CHR 0x22] @ concat (map (\<lambda>c. if c = CHR 0x22 then [c, c] else [c]) s) @ [CHR 0x22]"
    unfolding csv_field_def Let_def option.case tw by (simp add: csv_quotechar_def)
qed

text \<open>
  The claim as stated fails: a cell with an embedded tab is written between double quotes,
  and a cell with a double quote and a tab does not occur in the output as it is.
\<close>

theorem writerows_quotes_tab_cell_counterexample:
  "writerows tab_cell_table = [CHR 0x22, CHR ''a'', CHR 0x09, CHR ''b'', CHR 0x22, CHR 0x0A] \<and>
   tsv_lines tab_cell_table = [CHR ''a'', CHR 0x09, CHR ''b'', CHR 0x0A] \<and>
   writerows tab_cell_table \<noteq> tsv_lines tab_cell_table \<and>
   CHR 0x09 \<in> set tab_quote_cell \<and>
   \<not> str_contains tab_quote_cell (writerows [[Some tab_quote_cell]])"
  by (simp add: tab_cell_table_def tab_quote_cell_def writerows_def writerow_def csv_field_def
      csv_special_def csv_delimiter_def csv_quotechar_def csv_lineterminator_def tsv_lines_def
      cell_text_def startswith_def)

text \<open>
  C8, as amended. For a table whose rows are not empty and not a single blank cell, and
  whose cells hold no tab, double quote, newline or NUL byte, the output is exactly the
  tab-joined, newline-terminated lines, and splitting it on newlines and tabs gives back
  the header and the rows (a blank cell as the empty string).
\<close>

theorem writerows_resplit_roundtrip:
  assumes "list_all (list_all plain_cell) table"
    and "list_all (\<lambda>row. row \<noteq> [] \<and> \<not> lone_blank row) table"
  shows "writerows table = tsv_lines table \<and>
         tsv_resplit (writerows table) = map (map cell_text) table"
proof -
  from assms(2) have "\<not> list_ex lone_blank table" and ne: "list_all (\<lambda>row. row \<noteq> []) table"
    by (auto simp: list_all_iff list_ex_iff)
  with assms(1) have w: "writerows table = tsv_lines table" by (simp add: writerows_plain)
  with tsv_resplit_lines[OF assms(1) ne] show ?thesis by simp
qed

text \<open>
  The claim as stated fails: a cell that holds a double quote is written quoted, with the
  quote doubled, and splitting the output does not give the cell back.
\<close>

theorem writerows_resplit_quote_counterexample:
  "writerows quote_cell_table \<noteq> tsv_lines quote_cell_table \<and>
   tsv_resplit (writerows quote_cell_table) =
     [[''Description''], [[CHR 0x22, CHR ''5'', CHR 0x22, CHR 0x22, CHR '' '', CHR ''m'', CHR 0x22]]] \<and>
   tsv_resplit (writerows quote_cell_table) \<noteq> map (map cell_text) quote_cell_table"
  by (simp add: quote_cell_table_def tsv_resplit_def writerows_def writerow_def csv_field_def
      csv_special_def csv_delimiter_def csv_quotechar_def csv_lineterminator_def tsv_lines_def
      cell_text_def str_split.simps startswith_def)

lemma plain_table_plain:
  "list_all (list_all plain_cell) plain_table"
  by (simp add: plain_table_def plain_cell_def cell_text_def)

theorem writerows_plain_and_quoted_witness:
  "writerows tab_cell_table =
     concat (map (\<lambda>row. tab_joined (map (csv_field (length row = 1)) row) @ [CHR 0x0A])
       tab_cell_table) \<and>
   list_all (list_all (\<lambda>cell. CHR 0x0A \<notin> set (cell_text cell))) tab_cell_table \<and>
   length (filter (\<lambda>c. c = CHR 0x0A) (writerows tab_cell_table)) = length tab_cell_table \<and>
   list_all (list_all plain_cell) plain_table \<and> \<not> list_ex lone_blank plain_table \<and>
   writerows plain_table =
     concat (map (\<lambda>row. tab_joined (map cell_text row) @ [CHR 0x0A]) plain_table) \<and>
   writerows plain_table = tsv_lines plain_table \<and>
   CHR 0x09 \<in> set [CHR ''a'', CHR 0x09, CHR ''b''] \<and>
   CHR 0x00 \<notin> set [CHR ''a'', CHR 0x09, CHR ''b''] \<and>
   csv_field False (Some [CHR ''a'', CHR 0x09, CHR ''b'']) =
     [CHR 0x22, CHR ''a'', CHR 0x09, CHR ''b'', CHR 0x22]"
proof -
  have h0: "list_all (list_all (\<lambda>cell. CHR 0x0A \<notin> set (cell_text cell))) tab_cell_table"
    by (simp add: tab_cell_table_def cell_text_def)
  have h1: "list_all (list_all plain_cell) plain_table \<and> \<not> list_ex lone_blank plain_table"
    by (simp add: plain_table_plain) (simp add: plain_table_def lone_blank_def cell_text_def)
  have h2: "CHR 0x09 \<in> set [CHR ''a'', CHR 0x09, CHR ''b''] \<and>
      CHR 0x00 \<notin> set [CHR ''a'', CHR 0x09, CHR ''b'']" by simp
  from writerows_plain_and_quoted[of tab_cell_table "[CHR ''a'', CHR 0x09, CHR ''b'']" False] h0 h2
  have c: "writerows tab_cell_table =
     concat (map (\<lambda>row. tab_joined (map (csv_field (length row = 1)) row) @ [CHR 0x0A])
       tab_cell_table)"
    "length (filter (\<lambda>c. c = CHR 0x0A) (writerows tab_cell_table)) = length tab_cell_table"
    "csv_field False (Some [CHR ''a'', CHR 0x09, CHR ''b'']) =
       [CHR 0x22] @ concat (map (\<lambda>c. if c = CHR 0x22 then [c, c] else [c])
         [CHR ''a'', CHR 0x09, CHR ''b'']) @ [CHR 0x22]"
    by blast+
  from writerows_plain_and_quoted[of plain_table] h1
  have d: "writerows plain_table =
     concat (map (\<lambda>row. tab_joined (map cell_text row) @ [CHR 0x0A]) plain_table)"
    "writerows plain_table = tsv_lines plain_table"
    by blast+
  from c(3) have "csv_field False (Some [CHR ''a'', CHR 0x09, CHR ''b'']) =
     [CHR 0x22, CHR ''a'', CHR 0x09, CHR ''b'', CHR 0x22]" by simp
  with h0 h1 h2 c(1,2) d show ?thesis by blast
qed

theorem writerows_resplit_roundtrip_witness:
  "list_all (list_all plain_cell) plain_table \<and>
   list_all (\<lambda>row. row \<noteq> [] \<and> \<not> lone_blank row) plain_table \<and>
   writerows plain_table = tsv_lines plain_table \<and>
   tsv_resplit (writerows plain_table) =
     [[''#SampleID'', ''Treatment''], [''#Example mapping file''],
      [''PC.354'', ''Control''], [''PC.607'', []]]"
proof -
  have h2: "list_all (\<lambda>row. row \<noteq> [] \<and> \<not> lone_blank row) plain_table"
    by (simp add: plain_table_def lone_blank_def cell_text_def)
  have m: "map (map cell_text) plain_table =
     [[''#SampleID'', ''Treatment''], [''#Example mapping file''],
      [''PC.354'', ''Control''], [''PC.607'', []]]"
    by (simp add: plain_table_def cell_text_def)
  from writerows_resplit_roundtrip[OF plain_table_plain h2]
  have c: "writerows plain_table = tsv_lines plain_table"
    "tsv_resplit (writerows plain_table) = map (map cell_text) plain_table"
    by blast+
  from plain_table_plain h2 c(1) c(2)[unfolded m] show ?thesis by blast
qed

subsection \<open>A full run\<close>

text \<open>
  The example spreadsheet, loaded from a URL without a worksheet name: the first worksheet
  is used, its two header cells come from two pages, the first row is a comment row and
  the blank cell of the last row is written as the empty string.
\<close>

lemma load_example:
  "load_google_spreadsheet_mapping_file (example_client (Inr [sheet1, sheet2, sheet3]) example_rows)
       ''http://x/ccc?key=KEY#gid=0'' None =
     Some (Inr (''#SampleID'' @ [CHR 0x09] @ ''Treatment'' @ [CHR 0x0A] @
                ''#Example mapping file'' @ [CHR 0x0A] @
                ''PC.354'' @ [CHR 0x09] @ ''Control'' @ [CHR 0x0A] @
                ''PC.607'' @ [CHR 0x09] @ [CHR 0x0A]))"
  by code_simp

end
